theory Spec2Isabelle
  imports Main "HOL-Library.AList" "HOL-Library.Sublist"
begin

section \<open>Paths (the parts of pathlib that transcode.py uses)\<close>

text \<open>
  A path is the list of its components below the filesystem root; the start path is
  taken after \<^verbatim>\<open>Path(args.start).resolve()\<close>, so every path is absolute. Components
  are file names as a filesystem has them (not empty, no separator inside).
\<close>

type_synonym path = "string list"

text \<open>
  The exceptions that reach the program. \<open>DirectoryNotEmpty\<close>, \<open>InvalidArgument\<close>,
  \<open>FileNameTooLong\<close> and \<open>SymlinkLoop\<close> are plain \<^verbatim>\<open>OSError\<close>s with the error numbers
  ENOTEMPTY, EINVAL, ENAMETOOLONG and ELOOP.
\<close>

datatype py_error =
    FileNotFoundError
  | IsADirectoryError
  | NotADirectoryError
  | DirectoryNotEmpty
  | InvalidArgument
  | ValueError
  | PermissionError
  | FileNameTooLong
  | SymlinkLoop
  | OverflowError

text \<open>\<^verbatim>\<open>Path.name\<close>: the final component, the empty string for the root.\<close>

definition name :: "path \<Rightarrow> string" where
  "name p = (if p = [] then [] else last p)"

text \<open>\<^verbatim>\<open>str.rfind('.')\<close>: the index of the last dot, -1 when there is none.\<close>

definition rfind_dot :: "string \<Rightarrow> int" where
  "rfind_dot s =
     (if CHR ''.'' \<in> set s
      then int (length s) - 1 - int (length (takeWhile (\<lambda>c. c \<noteq> CHR ''.'') (rev s)))
      else - 1)"

text \<open>
  \<^verbatim>\<open>PurePath.stem\<close>:
  \<^verbatim>\<open>i = name.rfind('.'); return name[:i] if 0 < i < len(name) - 1 else name\<close>.
\<close>

definition stem_of :: "string \<Rightarrow> string" where
  "stem_of nm =
     (let i = rfind_dot nm
      in if 0 < i \<and> i < int (length nm) - 1 then take (nat i) nm else nm)"

definition stem :: "path \<Rightarrow> string" where
  "stem p = stem_of (name p)"

text \<open>
  \<^verbatim>\<open>with_name\<close> and \<^verbatim>\<open>with_suffix\<close> raise ValueError on a path with an empty
  name; \<^verbatim>\<open>with_suffix\<close> replaces the old suffix, that is, it keeps the stem.
\<close>

definition with_name :: "path \<Rightarrow> string \<Rightarrow> py_error + path" where
  "with_name p nm = (if name p = [] then Inl ValueError else Inr (butlast p @ [nm]))"

definition with_suffix :: "path \<Rightarrow> string \<Rightarrow> py_error + path" where
  "with_suffix p sfx =
     (if name p = [] then Inl ValueError else Inr (butlast p @ [stem p @ sfx]))"

section \<open>The filesystem\<close>

text \<open>
  A directory tree as an association list from paths to nodes, in the order in which a
  traversal meets the entries. A regular file holds its bytes, a directory the size
  that \<^verbatim>\<open>stat\<close> reports for it. \<open>Broken_link\<close> is a symbolic link whose target is
  missing: a directory entry that can be listed, unlinked and renamed, and that
  \<^verbatim>\<open>stat\<close>, which follows links, does not find. A symbolic link whose target exists
  answers the calls that the program makes on it as a file of the size of its target
  does, and has no node of its own here.
\<close>

datatype node = File string | Dir nat | Broken_link

type_synonym fs = "(path \<times> node) list"

text \<open>
  The host can refuse a call for a reason that the directory tree does not show: a name
  longer than the filesystem allows, a directory that may not be searched or written, an
  immutable file. Which calls it refuses, and with which error, is a parameter of the
  model, as the encoder is.
\<close>

record host =
  stat_refused :: "path \<Rightarrow> py_error option"
  unlink_refused :: "path \<Rightarrow> py_error option"
  rename_refused :: "path \<Rightarrow> path \<Rightarrow> py_error option"

text \<open>\<^verbatim>\<open>p.stat()\<close>: whether the path is a directory, and its size.\<close>

definition stat :: "host \<Rightarrow> fs \<Rightarrow> path \<Rightarrow> py_error + (bool \<times> nat)" where
  "stat h t p =
     (case stat_refused h p of
        Some e \<Rightarrow> Inl e
      | None \<Rightarrow>
          (case map_of t p of
             None \<Rightarrow> Inl FileNotFoundError
           | Some Broken_link \<Rightarrow> Inl FileNotFoundError
           | Some (File bytes) \<Rightarrow> Inr (False, length bytes)
           | Some (Dir n) \<Rightarrow> Inr (True, n)))"

text \<open>
  \<^verbatim>\<open>pathlib._ignore_error\<close>: the errors of \<^verbatim>\<open>stat\<close> that \<^verbatim>\<open>exists\<close> and \<^verbatim>\<open>is_dir\<close>
  answer with False (ENOENT, ENOTDIR, ELOOP); they raise every other one again.
\<close>

definition ignore_error :: "py_error \<Rightarrow> bool" where
  "ignore_error e = (e = FileNotFoundError \<or> e = NotADirectoryError \<or> e = SymlinkLoop)"

text \<open>\<^verbatim>\<open>p.exists()\<close>\<close>

definition path_exists :: "host \<Rightarrow> fs \<Rightarrow> path \<Rightarrow> py_error + bool" where
  "path_exists h t p =
     (case stat h t p of
        Inl e \<Rightarrow> if ignore_error e then Inr False else Inl e
      | Inr _ \<Rightarrow> Inr True)"

text \<open>\<^verbatim>\<open>p.is_dir()\<close>\<close>

definition is_dir :: "host \<Rightarrow> fs \<Rightarrow> path \<Rightarrow> py_error + bool" where
  "is_dir h t p =
     (case stat h t p of
        Inl e \<Rightarrow> if ignore_error e then Inr False else Inl e
      | Inr (d, _) \<Rightarrow> Inr d)"

text \<open>\<^verbatim>\<open>p.stat().st_size\<close>\<close>

definition st_size :: "host \<Rightarrow> fs \<Rightarrow> path \<Rightarrow> py_error + nat" where
  "st_size h t p =
     (case stat h t p of
        Inl e \<Rightarrow> Inl e
      | Inr (_, n) \<Rightarrow> Inr n)"

text \<open>\<^verbatim>\<open>p.unlink()\<close>: removes a file or a link, never a directory.\<close>

definition unlink :: "host \<Rightarrow> fs \<Rightarrow> path \<Rightarrow> py_error + fs" where
  "unlink h t p =
     (case unlink_refused h p of
        Some e \<Rightarrow> Inl e
      | None \<Rightarrow>
          (case map_of t p of
             None \<Rightarrow> Inl FileNotFoundError
           | Some (Dir _) \<Rightarrow> Inl IsADirectoryError
           | Some (File _) \<Rightarrow> Inr (AList.delete p t)
           | Some Broken_link \<Rightarrow> Inr (AList.delete p t)))"

definition has_children :: "fs \<Rightarrow> path \<Rightarrow> bool" where
  "has_children t d = list_ex (\<lambda>q. prefix d q \<and> q \<noteq> d) (map fst t)"

definition move_tree :: "path \<Rightarrow> path \<Rightarrow> fs \<Rightarrow> fs" where
  "move_tree a b t =
     map (\<lambda>(q, n). if prefix a q then (b @ drop (length a) q, n) else (q, n)) t"

text \<open>
  What \<^verbatim>\<open>rename\<close> does to the tree, with the POSIX rules: a file or a link replaces a
  file or a link, never a directory; a directory replaces only an empty directory and
  takes its subtree along. Both paths of the program lie in the directory of the
  candidate, so the parent of \<open>b\<close> is not looked at.
\<close>

definition rename_tree :: "fs \<Rightarrow> path \<Rightarrow> path \<Rightarrow> py_error + fs" where
  "rename_tree t a b =
     (case map_of t a of
        None \<Rightarrow> Inl FileNotFoundError
      | Some (Dir n) \<Rightarrow>
          (case map_of t b of
             None \<Rightarrow>
               if prefix a b then Inl InvalidArgument else Inr (move_tree a b t)
           | Some (Dir _) \<Rightarrow>
               if a = b then Inr t
               else if prefix a b then Inl InvalidArgument
               else if has_children t b then Inl DirectoryNotEmpty
               else Inr (move_tree a b (AList.delete b t))
           | Some _ \<Rightarrow> Inl NotADirectoryError)
      | Some n \<Rightarrow>
          (case map_of t b of
             Some (Dir _) \<Rightarrow> Inl IsADirectoryError
           | _ \<Rightarrow> Inr (AList.update b n (AList.delete a t))))"

text \<open>\<^verbatim>\<open>a.rename(b)\<close>\<close>

definition rename :: "host \<Rightarrow> fs \<Rightarrow> path \<Rightarrow> path \<Rightarrow> py_error + fs" where
  "rename h t a b =
     (case rename_refused h a b of
        Some e \<Rightarrow> Inl e
      | None \<Rightarrow> rename_tree t a b)"

section \<open>Scanner\<close>

text \<open>\<^verbatim>\<open>str.endswith\<close>\<close>

definition endswith :: "string \<Rightarrow> string \<Rightarrow> bool" where
  "endswith s sfx = (length sfx \<le> length s \<and> drop (length s - length sfx) s = sfx)"

text \<open>
  The pattern \<^verbatim>\<open>f"*.{ext}"\<close> on a file name, for an extension without wildcard
  characters: the star matches any run of characters, a leading dot included.
\<close>

definition matches :: "string \<Rightarrow> string \<Rightarrow> bool" where
  "matches ext nm = endswith nm (''.'' @ ext)"

text \<open>
  \<^verbatim>\<open>Path.glob\<close> and \<^verbatim>\<open>Path.rglob\<close> first ask \<^verbatim>\<open>is_dir()\<close> of the start path, which may
  raise, and yield nothing when the answer is False. They match every kind of entry,
  directories and links as well as files; \<^verbatim>\<open>glob\<close> looks at the direct children,
  \<^verbatim>\<open>rglob\<close> at every depth. Listing a directory of the tree is taken to succeed.
\<close>

definition glob :: "host \<Rightarrow> fs \<Rightarrow> path \<Rightarrow> string \<Rightarrow> py_error + path list" where
  "glob h t root ext =
     (case is_dir h t root of
        Inl e \<Rightarrow> Inl e
      | Inr d \<Rightarrow>
          Inr (if d
               then filter (\<lambda>p. p \<noteq> [] \<and> butlast p = root \<and> matches ext (last p)) (map fst t)
               else []))"

definition rglob :: "host \<Rightarrow> fs \<Rightarrow> path \<Rightarrow> string \<Rightarrow> py_error + path list" where
  "rglob h t root ext =
     (case is_dir h t root of
        Inl e \<Rightarrow> Inl e
      | Inr d \<Rightarrow>
          Inr (if d
               then filter (\<lambda>p. prefix root p \<and> p \<noteq> root \<and> matches ext (last p)) (map fst t)
               else []))"

definition find_target_files ::
  "host \<Rightarrow> fs \<Rightarrow> path \<Rightarrow> string \<Rightarrow> bool \<Rightarrow> py_error + path list" where
  "find_target_files h t start_path ext recursive =
     (if recursive then rglob h t start_path ext else glob h t start_path ext)"

section \<open>The world: files and the trace of effects\<close>

text \<open>
  The program acts on the filesystem through three calls: it launches the encoder,
  unlinks a path and renames a path. The world holds the directory tree and, as a
  history, every such call in the order in which it was issued (a call that then
  raises is in the history too). A raised exception carries the world, or the state
  of the run, in which it was raised. What the program prints is no part of the world,
  and printing is taken to succeed.
\<close>

datatype op = Launch path path | Unlink path | Rename path path

record world =
  files :: fs
  ops :: "op list"

definition w_unlink :: "host \<Rightarrow> world \<Rightarrow> path \<Rightarrow> (py_error \<times> world) + world" where
  "w_unlink h w p =
     (let w' = w\<lparr>ops := ops w @ [Unlink p]\<rparr>
      in case unlink h (files w) p of
           Inl e \<Rightarrow> Inl (e, w')
         | Inr t \<Rightarrow> Inr (w'\<lparr>files := t\<rparr>))"

definition w_rename :: "host \<Rightarrow> world \<Rightarrow> path \<Rightarrow> path \<Rightarrow> (py_error \<times> world) + world" where
  "w_rename h w a b =
     (let w' = w\<lparr>ops := ops w @ [Rename a b]\<rparr>
      in case rename h (files w) a b of
           Inl e \<Rightarrow> Inl (e, w')
         | Inr t \<Rightarrow> Inr (w'\<lparr>files := t\<rparr>))"

section \<open>The encoder process\<close>

text \<open>
  HandBrakeCLI is a black box. Given the directory tree, the input path and the
  output path it ends in one of three ways: \<^verbatim>\<open>Popen\<close> raises and nothing ran; reading
  its output raises after it has started; or \<^verbatim>\<open>wait\<close> returns with an exit code. In
  the last two cases it leaves a directory tree behind.
\<close>

datatype enc_outcome =
    Launch_failed
  | Stream_failed fs
  | Exited int fs

type_synonym encoder = "fs \<Rightarrow> path \<Rightarrow> path \<Rightarrow> enc_outcome"

section \<open>transcode_file\<close>

text \<open>\<^verbatim>\<open>if tmp_dst.exists(): tmp_dst.unlink()\<close>\<close>

definition remove_tmp :: "host \<Rightarrow> world \<Rightarrow> path \<Rightarrow> (py_error \<times> world) + world" where
  "remove_tmp h w tmp_dst =
     (case path_exists h (files w) tmp_dst of
        Inl e \<Rightarrow> Inl (e, w)
      | Inr present \<Rightarrow> if present then w_unlink h w tmp_dst else Inr w)"

text \<open>The \<^verbatim>\<open>except Exception\<close> block: what it raises leaves the function.\<close>

definition except_block :: "host \<Rightarrow> world \<Rightarrow> path \<Rightarrow> (py_error \<times> world) + (world \<times> bool)" where
  "except_block h w tmp_dst =
     (case remove_tmp h w tmp_dst of
        Inl ew \<Rightarrow> Inl ew
      | Inr w' \<Rightarrow> Inr (w', False))"

text \<open>
  The arguments \<^verbatim>\<open>index\<close> and \<^verbatim>\<open>total\<close> only reach the console and are left out.
  Everything from \<^verbatim>\<open>Popen\<close> to \<^verbatim>\<open>rename\<close> is inside the \<^verbatim>\<open>try\<close>, so an exception
  there continues in the \<^verbatim>\<open>except\<close> block with the world as it then is.
\<close>

definition transcode_file ::
  "host \<Rightarrow> encoder \<Rightarrow> world \<Rightarrow> path \<Rightarrow> path \<Rightarrow> bool \<Rightarrow> (py_error \<times> world) + (world \<times> bool)" where
  "transcode_file h enc w src dst dry_run =
     (case with_suffix dst ''.tmp.mp4'' of
        Inl e \<Rightarrow> Inl (e, w)
      | Inr tmp_dst \<Rightarrow>
          if dry_run then Inr (w, True)
          else
            (let w0 = w\<lparr>ops := ops w @ [Launch src tmp_dst]\<rparr>
             in case enc (files w) src tmp_dst of
                  Launch_failed \<Rightarrow> except_block h w0 tmp_dst
                | Stream_failed t \<Rightarrow> except_block h (w0\<lparr>files := t\<rparr>) tmp_dst
                | Exited returncode t \<Rightarrow>
                    (let w1 = w0\<lparr>files := t\<rparr>
                     in if returncode \<noteq> 0
                        then (case remove_tmp h w1 tmp_dst of
                                Inl (e, w2) \<Rightarrow> except_block h w2 tmp_dst
                              | Inr w2 \<Rightarrow> Inr (w2, False))
                        else (case w_rename h w1 tmp_dst dst of
                                Inl (e, w2) \<Rightarrow> except_block h w2 tmp_dst
                              | Inr w2 \<Rightarrow> Inr (w2, True)))))"

section \<open>main\<close>

record args =
  start :: path
  ext :: string
  recursive :: bool
  reprocess :: bool
  delete :: bool
  commit :: bool

text \<open>
  The variables of the loop. \<open>measured\<close> is a history and no variable of the program:
  it keeps, for each execution of \<^verbatim>\<open>total_saved += (src_size - new_size)\<close>, the
  file and the two sizes that were read.
\<close>

record run =
  processed :: "(path \<times> path) list"
  skipped :: "path list"
  deleted :: "path list"
  failed :: "path list"
  total_saved :: int
  env :: world
  measured :: "(path \<times> nat \<times> nat) list"

definition init_run :: "fs \<Rightarrow> run" where
  "init_run t =
     \<lparr>processed = [], skipped = [], deleted = [], failed = [], total_saved = 0,
      env = \<lparr>files = t, ops = []\<rparr>, measured = []\<rparr>"

text \<open>\<^verbatim>\<open>file.unlink(); deleted.append(file)\<close>\<close>

definition delete_source :: "host \<Rightarrow> run \<Rightarrow> path \<Rightarrow> (py_error \<times> run) + run" where
  "delete_source h s file =
     (case w_unlink h (env s) file of
        Inl (e, w) \<Rightarrow> Inl (e, s\<lparr>env := w\<rparr>)
      | Inr w \<Rightarrow> Inr (s\<lparr>env := w, deleted := deleted s @ [file]\<rparr>))"

text \<open>
  One turn of the \<^verbatim>\<open>for\<close> loop of \<^verbatim>\<open>main\<close>. In \<^verbatim>\<open>dst.exists() and not args.reprocess\<close>
  the call comes first, so it is made, and may raise, with \<^verbatim>\<open>--reprocess\<close> too.
\<close>

definition process_file ::
  "host \<Rightarrow> encoder \<Rightarrow> args \<Rightarrow> run \<Rightarrow> path \<Rightarrow> (py_error \<times> run) + run" where
  "process_file h enc a s file =
     (case with_name file (stem file @ ''-converted.mp4'') of
        Inl e \<Rightarrow> Inl (e, s)
      | Inr dst \<Rightarrow>
          (case path_exists h (files (env s)) dst of
             Inl e \<Rightarrow> Inl (e, s)
           | Inr present \<Rightarrow>
               if present \<and> \<not> reprocess a
               then
                 (let s1 = s\<lparr>skipped := skipped s @ [file]\<rparr>
                  in if commit a \<and> delete a then delete_source h s1 file else Inr s1)
               else
                 (case st_size h (files (env s)) file of
                    Inl e \<Rightarrow> Inl (e, s)
                  | Inr src_size \<Rightarrow>
                      (case transcode_file h enc (env s) file dst (\<not> commit a) of
                         Inl (e, w) \<Rightarrow> Inl (e, s\<lparr>env := w\<rparr>)
                       | Inr (w, success) \<Rightarrow>
                           if success
                           then
                             (let s2 = s\<lparr>env := w, processed := processed s @ [(file, dst)]\<rparr>
                              in if commit a
                                 then (case st_size h (files w) dst of
                                         Inl e \<Rightarrow> Inl (e, s2)
                                       | Inr new_size \<Rightarrow>
                                           (let s3 = s2\<lparr>total_saved :=
                                                           total_saved s2 + (int src_size - int new_size),
                                                         measured :=
                                                           measured s2 @ [(file, src_size, new_size)]\<rparr>
                                            in if delete a then delete_source h s3 file else Inr s3))
                                 else Inr s2)
                           else Inr (s\<lparr>env := w, failed := failed s @ [file]\<rparr>)))))"

fun main_loop ::
  "host \<Rightarrow> encoder \<Rightarrow> args \<Rightarrow> run \<Rightarrow> path list \<Rightarrow> (py_error \<times> run) + run" where
  "main_loop h enc a s [] = Inr s"
| "main_loop h enc a s (file # rest) =
     (case process_file h enc a s file of
        Inl es \<Rightarrow> Inl es
      | Inr s' \<Rightarrow> main_loop h enc a s' rest)"

subsection \<open>The closing line of the summary\<close>

fun show_nat :: "nat \<Rightarrow> string" where
  "show_nat n =
     (if n < 10 then [''0123456789'' ! n]
      else show_nat (n div 10) @ [''0123456789'' ! (n mod 10)])"

text \<open>\<^verbatim>\<open>int.bit_length\<close>\<close>

fun bit_length :: "nat \<Rightarrow> nat" where
  "bit_length n = (if n = 0 then 0 else Suc (bit_length (n div 2)))"

text \<open>The quotient \<open>n / d\<close> rounded to the nearest integer, a tie to the even one.\<close>

definition nearest_even :: "nat \<Rightarrow> nat \<Rightarrow> nat" where
  "nearest_even n d =
     (let q = n div d; r = n mod d
      in if d < 2 * r \<or> (2 * r = d \<and> odd q) then q + 1 else q)"

text \<open>
  The double nearest to a natural number: the number rounded to 53 significant bits, a
  tie to the even one.
\<close>

definition to_double :: "nat \<Rightarrow> nat" where
  "to_double n = (let e = bit_length n - 53 in nearest_even n (2 ^ e) * 2 ^ e)"

text \<open>
  \<^verbatim>\<open>total_saved / (1024**2)\<close>. The true division of two integers gives the double
  nearest to the exact quotient and raises OverflowError when that is \<open>2^1024\<close> or more
  in absolute value. The divisor is \<open>2^20\<close>, so the quotient is \<open>m / 2^20\<close> for the
  integer \<open>m\<close> that is the dividend rounded to 53 significant bits; the result here is
  this \<open>m\<close>, with the sign of the dividend.
\<close>

definition mib_quotient :: "int \<Rightarrow> py_error + int" where
  "mib_quotient n =
     (let m = to_double (nat \<bar>n\<bar>)
      in if 2 ^ 1044 \<le> m then Inl OverflowError else Inr (sgn n * int m))"

text \<open>
  \<^verbatim>\<open>f"{x:.2f}"\<close> for the double \<open>x = m / 2^20\<close>: the exact value of the double rounded to
  the nearest hundredth, a tie to the even one; a negative value keeps its sign when it
  rounds to zero.
\<close>

definition hundredths :: "nat \<Rightarrow> nat \<Rightarrow> nat" where
  "hundredths n d = nearest_even (100 * n) d"

definition format_2f :: "int \<Rightarrow> string" where
  "format_2f m =
     (let h = hundredths (nat \<bar>m\<bar>) (1024 ^ 2)
      in (if m < 0 then ''-'' else []) @ show_nat (h div 100) @ ''.'' @
         [''0123456789'' ! (h mod 100 div 10), ''0123456789'' ! (h mod 10)])"

datatype closing = Total_space_saved string | Dry_run_notice

definition closing_line :: "args \<Rightarrow> run \<Rightarrow> py_error + closing" where
  "closing_line a s =
     (if commit a
      then (case mib_quotient (total_saved s) of
              Inl e \<Rightarrow> Inl e
            | Inr m \<Rightarrow> Inr (Total_space_saved (format_2f m)))
      else Inr Dry_run_notice)"

text \<open>
  \<^verbatim>\<open>main\<close>: scan, loop, summary. The result is the exception that ended the run, with
  the variables as they then were, or the final variables and the closing line of the
  summary; the lists of the summary are the final variables.
\<close>

definition main ::
  "host \<Rightarrow> encoder \<Rightarrow> fs \<Rightarrow> args \<Rightarrow> (py_error \<times> run) + (run \<times> closing)" where
  "main h enc t a =
     (case find_target_files h t (start a) (ext a) (recursive a) of
        Inl e \<Rightarrow> Inl (e, init_run t)
      | Inr targets \<Rightarrow>
          (case main_loop h enc a (init_run t) targets of
             Inl es \<Rightarrow> Inl es
           | Inr s \<Rightarrow>
               (case closing_line a s of
                  Inl e \<Rightarrow> Inl (e, s)
                | Inr c \<Rightarrow> Inr (s, c))))"

text \<open>The exit status: 1 after an uncaught exception, 0 otherwise.\<close>

definition exit_status :: "(py_error \<times> run) + (run \<times> closing) \<Rightarrow> nat" where
  "exit_status r = (case r of Inl _ \<Rightarrow> 1 | Inr _ \<Rightarrow> 0)"

section \<open>Observations on results\<close>

text \<open>The directory tree that a run of the encoder leaves behind.\<close>

definition tree_after :: "enc_outcome \<Rightarrow> fs \<Rightarrow> fs" where
  "tree_after out t = (case out of Launch_failed \<Rightarrow> t | Stream_failed t' \<Rightarrow> t' | Exited _ t' \<Rightarrow> t')"

text \<open>The world after \<^verbatim>\<open>transcode_file\<close>, whether it returned or raised.\<close>

definition final_world :: "(py_error \<times> world) + (world \<times> bool) \<Rightarrow> world" where
  "final_world r = (case r of Inl (e, w) \<Rightarrow> w | Inr (w, ok) \<Rightarrow> w)"

text \<open>The variables after a turn of the loop, whether it ended or raised.\<close>

definition final_run :: "(py_error \<times> run) + run \<Rightarrow> run" where
  "final_run r = (case r of Inl (e, s) \<Rightarrow> s | Inr s \<Rightarrow> s)"

text \<open>The variables at the end of \<^verbatim>\<open>main\<close>, whether it ended or raised.\<close>

definition final_state :: "(py_error \<times> run) + (run \<times> closing) \<Rightarrow> run" where
  "final_state r = (case r of Inl (e, s) \<Rightarrow> s | Inr (s, c) \<Rightarrow> s)"

text \<open>The sources in \<^verbatim>\<open>processed\<close>, which holds pairs of source and output.\<close>

definition processed_sources :: "run \<Rightarrow> path list" where
  "processed_sources s = map fst (processed s)"

text \<open>The sum of the terms that were added to \<^verbatim>\<open>total_saved\<close>.\<close>

definition measured_sum :: "(path \<times> nat \<times> nat) list \<Rightarrow> int" where
  "measured_sum ms = sum_list (map (\<lambda>(file, src_size, new_size). int src_size - int new_size) ms)"

text \<open>
  The two paths that \<^verbatim>\<open>main\<close> and \<^verbatim>\<open>transcode_file\<close> derive from a candidate: the
  output artifact and the temporary output.
\<close>

definition output_path :: "path \<Rightarrow> path" where
  "output_path file = butlast file @ [stem file @ ''-converted.mp4'']"

definition temp_path :: "path \<Rightarrow> path" where
  "temp_path file = butlast file @ [stem file @ ''-converted.tmp.mp4'']"

text \<open>
  The test of \<^verbatim>\<open>main\<close> that sends a candidate to \<^verbatim>\<open>skipped\<close>; it raises when
  \<^verbatim>\<open>dst.exists()\<close> does.
\<close>

definition skips :: "host \<Rightarrow> args \<Rightarrow> fs \<Rightarrow> path \<Rightarrow> py_error + bool" where
  "skips h a t file =
     (case path_exists h t (output_path file) of
        Inl e \<Rightarrow> Inl e
      | Inr present \<Rightarrow> Inr (present \<and> \<not> reprocess a))"

text \<open>
  Whether the cleanup \<^verbatim>\<open>if tmp_dst.exists(): tmp_dst.unlink()\<close> goes through in a
  tree: neither of its two calls raises.
\<close>

definition cleanup_returns :: "host \<Rightarrow> fs \<Rightarrow> path \<Rightarrow> bool" where
  "cleanup_returns h t tmp_dst =
     (case path_exists h t tmp_dst of
        Inl e \<Rightarrow> False
      | Inr present \<Rightarrow>
          \<not> present \<or> (case unlink h t tmp_dst of Inl e \<Rightarrow> False | Inr t' \<Rightarrow> True))"

text \<open>
  Whether the encoder has exited with code 0 and the rename of the temporary output to
  the output path has gone through.
\<close>

definition encoded_and_renamed :: "host \<Rightarrow> enc_outcome \<Rightarrow> path \<Rightarrow> path \<Rightarrow> bool" where
  "encoded_and_renamed h out tmp_dst dst =
     (case out of
        Exited returncode t \<Rightarrow>
          returncode = 0 \<and> (case rename h t tmp_dst dst of Inl e \<Rightarrow> False | Inr t' \<Rightarrow> True)
      | _ \<Rightarrow> False)"

text \<open>
  The world after a transcode step that did not end with the rename: the history holds
  the launch and after it nothing but unlinks of the temporary path and, after an exit
  with 0, the rename that raised; every path but the temporary one holds what the
  encoder left there.
\<close>

definition failure_shape ::
  "host \<Rightarrow> encoder \<Rightarrow> world \<Rightarrow> path \<Rightarrow> path \<Rightarrow> path \<Rightarrow> world \<Rightarrow> bool" where
  "failure_shape h enc w src tmp dst w' =
     (\<exists>rest. ops w' = ops w @ Launch src tmp # rest \<and>
        set rest \<subseteq> {Unlink tmp, Rename tmp dst} \<and>
        (Rename tmp dst \<in> set rest \<longrightarrow> (\<exists>t. enc (files w) src tmp = Exited 0 t)) \<and>
        (\<forall>q. q \<noteq> tmp \<longrightarrow>
           map_of (files w') q = map_of (tree_after (enc (files w) src tmp) (files w)) q))"

section \<open>Example inputs\<close>

text \<open>
  A host that refuses a path with a component of more than 255 bytes, the longest name
  of the common filesystems, and nothing else.
\<close>

definition name_max :: nat where
  "name_max = 255"

definition too_long :: "path \<Rightarrow> py_error option" where
  "too_long p = (if list_ex (\<lambda>c. name_max < length c) p then Some FileNameTooLong else None)"

definition posix_host :: host where
  "posix_host =
     \<lparr>stat_refused = too_long, unlink_refused = too_long,
      rename_refused = (\<lambda>a b. case too_long a of Some e \<Rightarrow> Some e | None \<Rightarrow> too_long b)\<rparr>"

text \<open>
  A directory \<open>v\<close> with two sources, one already converted, and a subdirectory with a
  third source.
\<close>

definition tree_demo :: fs where
  "tree_demo =
     [([''v''], Dir 4096),
      ([''v'', ''a.mkv''], File ''aaaa''),
      ([''v'', ''b.mkv''], File ''bbb''),
      ([''v'', ''b-converted.mp4''], File ''b''),
      ([''v'', ''sub''], Dir 4096),
      ([''v'', ''sub'', ''c.mkv''], File ''cc'')]"

text \<open>Encoders: one that writes two bytes and succeeds, one that writes six bytes and
  succeeds, one that writes a partial file and exits with 1, one that cannot be
  launched.\<close>

definition enc_good :: encoder where
  "enc_good t src tmp_dst = Exited 0 (AList.update tmp_dst (File ''xx'') t)"

definition enc_large :: encoder where
  "enc_large t src tmp_dst = Exited 0 (AList.update tmp_dst (File ''xxxxxx'') t)"

definition enc_bad :: encoder where
  "enc_bad t src tmp_dst = Exited 1 (AList.update tmp_dst (File ''x'') t)"

definition enc_missing :: encoder where
  "enc_missing t src tmp_dst = Launch_failed"

definition args_dry :: args where
  "args_dry =
     \<lparr>start = [''v''], ext = ''mkv'', recursive = True, reprocess = False,
      delete = True, commit = False\<rparr>"

definition args_live :: args where
  "args_live =
     \<lparr>start = [''v''], ext = ''mkv'', recursive = True, reprocess = False,
      delete = True, commit = True\<rparr>"

text \<open>A directory scanned for \<open>mp4\<close>, with a source and the artifact made from it.\<close>

definition tree_mp4 :: fs where
  "tree_mp4 =
     [([''v''], Dir 4096),
      ([''v'', ''x.mp4''], File ''xxxx''),
      ([''v'', ''x-converted.mp4''], File ''xx'')]"

text \<open>A directory sits where the temporary output of \<open>a.mkv\<close> would be written.\<close>

definition tree_dir_tmp :: fs where
  "tree_dir_tmp =
     [([''v''], Dir 4096),
      ([''v'', ''a.mkv''], File ''aaaa''),
      ([''v'', ''a-converted.tmp.mp4''], Dir 4096)]"

text \<open>A directory whose name matches the extension, already converted, and a source
  after it.\<close>

definition tree_dir_source :: fs where
  "tree_dir_source =
     [([''v''], Dir 4096),
      ([''v'', ''d.mkv''], Dir 4096),
      ([''v'', ''d-converted.mp4''], File ''d''),
      ([''v'', ''e.mkv''], File ''eeee'')]"

text \<open>A directory of clips whose name matches the extension, next to the artifact that
  was made from a file of that name.\<close>

definition tree_clips :: fs where
  "tree_clips =
     [([''v''], Dir 4096),
      ([''v'', ''clips.mkv''], Dir 4096),
      ([''v'', ''clips.mkv'', ''one.avi''], File ''1111''),
      ([''v'', ''clips-converted.mp4''], File ''cc'')]"

text \<open>A link whose target is gone, scanned before a source.\<close>

definition tree_link :: fs where
  "tree_link =
     [([''v''], Dir 4096),
      ([''v'', ''l.mkv''], Broken_link),
      ([''v'', ''m.mkv''], File ''mmmm'')]"

text \<open>An encoder that exits with 1 and touches nothing.\<close>

definition enc_exit1 :: encoder where
  "enc_exit1 t src tmp_dst = Exited 1 t"


definition args_reprocess :: args where
  "args_reprocess =
     \<lparr>start = [''v''], ext = ''mkv'', recursive = True, reprocess = True,
      delete = True, commit = True\<rparr>"

text \<open>An encoder that fails on \<open>c.mkv\<close> and succeeds on every other input.\<close>

definition enc_picky :: encoder where
  "enc_picky t src tmp_dst =
     (if src = [''v'', ''sub'', ''c.mkv''] then Exited 1 (AList.update tmp_dst (File ''x'') t)
      else Exited 0 (AList.update tmp_dst (File ''xx'') t))"


text \<open>
  A source whose name has 254 bytes, so that the name of its output has 264, and one
  whose name has 244 bytes, so that the name of its output has 254 and the name of its
  temporary output 258.
\<close>

definition long_source :: path where
  "long_source = [''v'', replicate 250 (CHR ''a'') @ ''.mkv'']"

definition tree_long :: fs where
  "tree_long =
     [([''v''], Dir 4096),
      (long_source, File ''aaaa''),
      ([''v'', ''a.mkv''], File ''aaaa'')]"

definition mid_source :: path where
  "mid_source = [''v'', replicate 240 (CHR ''b'') @ ''.mkv'']"

definition tree_mid :: fs where
  "tree_mid = [([''v''], Dir 4096), (mid_source, File ''bbbb'')]"


section \<open>Facts about the derived paths\<close>

lemma rfind_dot_last:
  assumes "CHR ''.'' \<notin> set sfx"
  shows "rfind_dot (x @ CHR ''.'' # sfx) = int (length x)"
proof -
  have "takeWhile (\<lambda>c. c \<noteq> CHR ''.'') (rev sfx @ CHR ''.'' # rev x) = rev sfx"
    using assms by (subst takeWhile_append2) auto
  then show ?thesis
    by (simp add: rfind_dot_def)
qed

lemma stem_of_last_dot:
  assumes "CHR ''.'' \<notin> set sfx" and "sfx \<noteq> []" and "x \<noteq> []"
  shows "stem_of (x @ CHR ''.'' # sfx) = x"
  using assms by (simp add: stem_of_def rfind_dot_last Let_def)

lemma stem_of_converted: "stem_of (x @ ''-converted.mp4'') = x @ ''-converted''"
  using stem_of_last_dot [of "''mp4''" "x @ ''-converted''"] by simp

lemma name_snoc [simp]: "name (p @ [nm]) = nm"
  by (simp add: name_def)

lemma with_name_output: "name file \<noteq> [] \<Longrightarrow> with_name file (stem file @ ''-converted.mp4'') = Inr (output_path file)"
  by (simp add: with_name_def output_path_def)

lemma with_name_empty: "name file = [] \<Longrightarrow> with_name file nm = Inl ValueError"
  by (simp add: with_name_def)

lemma with_suffix_output: "with_suffix (output_path file) ''.tmp.mp4'' = Inr (temp_path file)"
  by (simp add: with_suffix_def output_path_def temp_path_def stem_def stem_of_converted)

lemma temp_neq_output: "temp_path file \<noteq> output_path file"
  by (simp add: temp_path_def output_path_def)

lemma name_output [simp]: "name (output_path file) = stem file @ ''-converted.mp4''"
  by (simp add: output_path_def)

lemma paths_a:
  "name [''v'', ''a.mkv''] \<noteq> []"
  "output_path [''v'', ''a.mkv''] = [''v'', ''a-converted.mp4'']"
  "temp_path [''v'', ''a.mkv''] = [''v'', ''a-converted.tmp.mp4'']"
  by (simp_all add: output_path_def temp_path_def stem_def stem_of_def name_def rfind_dot_def)

lemma paths_b:
  "name [''v'', ''b.mkv''] \<noteq> []"
  "output_path [''v'', ''b.mkv''] = [''v'', ''b-converted.mp4'']"
  "temp_path [''v'', ''b.mkv''] = [''v'', ''b-converted.tmp.mp4'']"
  by (simp_all add: output_path_def temp_path_def stem_def stem_of_def name_def rfind_dot_def)

lemma paths_d:
  "name [''v'', ''d.mkv''] \<noteq> []"
  "output_path [''v'', ''d.mkv''] = [''v'', ''d-converted.mp4'']"
  by (simp_all add: output_path_def stem_def stem_of_def name_def rfind_dot_def)

lemma paths_l:
  "name [''v'', ''l.mkv''] \<noteq> []"
  "output_path [''v'', ''l.mkv''] = [''v'', ''l-converted.mp4'']"
  by (simp_all add: output_path_def stem_def stem_of_def name_def rfind_dot_def)

section \<open>Facts about the scanner\<close>

lemma matches_nonempty: "matches e nm \<Longrightarrow> nm \<noteq> []"
  by (auto simp: matches_def endswith_def)

lemma target_props:
  assumes "find_target_files h t root e r = Inr ts" and "f \<in> set ts"
  shows "name f \<noteq> []" and "f \<in> fst ` set t"
proof -
  from assms have m: "f \<noteq> [] \<and> matches e (last f) \<and> f \<in> set (map fst t)"
    by (auto simp: find_target_files_def glob_def rglob_def split: if_splits sum.splits)
  then show "name f \<noteq> []" using matches_nonempty [of e "last f"] by (simp add: name_def)
  from m show "f \<in> fst ` set t" by simp
qed


lemma targets_distinct:
  "distinct (map fst t) \<Longrightarrow> find_target_files h t root e r = Inr ts \<Longrightarrow> distinct ts"
  by (auto simp: find_target_files_def glob_def rglob_def split: if_splits sum.splits)

section \<open>Evaluating runs on the example inputs\<close>

lemmas run_defs =
  main_def find_target_files_def rglob_def glob_def is_dir_def path_exists_def st_size_def
  stat_def ignore_error_def matches_def endswith_def init_run_def process_file_def
  with_name_def with_suffix_def name_def stem_def stem_of_def rfind_dot_def transcode_file_def
  remove_tmp_def except_block_def w_unlink_def w_rename_def unlink_def rename_def
  rename_tree_def delete_source_def closing_line_def mib_quotient_def to_double_def
  nearest_even_def format_2f_def hundredths_def Let_def posix_host_def too_long_def
  name_max_def

lemma targets_tree_demo:
  "find_target_files posix_host tree_demo [''v''] ''mkv'' True
     = Inr [[''v'', ''a.mkv''], [''v'', ''b.mkv''], [''v'', ''sub'', ''c.mkv'']]"
  by (simp add: run_defs tree_demo_def)

lemma main_dry_demo:
  "main posix_host enc_bad tree_demo args_dry =
     Inr (\<lparr>processed =
             [([''v'', ''a.mkv''], [''v'', ''a-converted.mp4'']),
              ([''v'', ''sub'', ''c.mkv''], [''v'', ''sub'', ''c-converted.mp4''])],
           skipped = [[''v'', ''b.mkv'']], deleted = [], failed = [], total_saved = 0,
           env = \<lparr>files = tree_demo, ops = []\<rparr>, measured = []\<rparr>,
          Dry_run_notice)"
  by (simp add: run_defs tree_demo_def args_dry_def enc_bad_def)

lemma main_dry_link:
  "main posix_host enc_good tree_link args_dry = Inl (FileNotFoundError, init_run tree_link)"
  by (simp add: run_defs tree_link_def args_dry_def)

lemma main_picky:
  "main posix_host enc_picky tree_demo args_live =
     Inr (\<lparr>processed = [([''v'', ''a.mkv''], [''v'', ''a-converted.mp4''])],
           skipped = [[''v'', ''b.mkv'']],
           deleted = [[''v'', ''a.mkv''], [''v'', ''b.mkv'']],
           failed = [[''v'', ''sub'', ''c.mkv'']], total_saved = 2,
           env = \<lparr>files =
              [([''v''], Dir 4096),
               ([''v'', ''b-converted.mp4''], File ''b''),
               ([''v'', ''sub''], Dir 4096),
               ([''v'', ''sub'', ''c.mkv''], File ''cc''),
               ([''v'', ''a-converted.mp4''], File ''xx'')],
              ops =
                [Launch [''v'', ''a.mkv''] [''v'', ''a-converted.tmp.mp4''],
                 Rename [''v'', ''a-converted.tmp.mp4''] [''v'', ''a-converted.mp4''],
                 Unlink [''v'', ''a.mkv''], Unlink [''v'', ''b.mkv''],
                 Launch [''v'', ''sub'', ''c.mkv''] [''v'', ''sub'', ''c-converted.tmp.mp4''],
                 Unlink [''v'', ''sub'', ''c-converted.tmp.mp4'']]\<rparr>,
           measured = [([''v'', ''a.mkv''], 4, 2)]\<rparr>,
          Total_space_saved ''0.00'')"
  by (simp add: run_defs tree_demo_def args_live_def enc_picky_def)

lemma main_large:
  "main posix_host enc_large tree_demo args_live =
     Inr (\<lparr>processed =
             [([''v'', ''a.mkv''], [''v'', ''a-converted.mp4'']),
              ([''v'', ''sub'', ''c.mkv''], [''v'', ''sub'', ''c-converted.mp4''])],
           skipped = [[''v'', ''b.mkv'']],
           deleted = [[''v'', ''a.mkv''], [''v'', ''b.mkv''], [''v'', ''sub'', ''c.mkv'']],
           failed = [], total_saved = - 6,
           env = \<lparr>files =
              [([''v''], Dir 4096),
               ([''v'', ''b-converted.mp4''], File ''b''),
               ([''v'', ''sub''], Dir 4096),
               ([''v'', ''a-converted.mp4''], File ''xxxxxx''),
               ([''v'', ''sub'', ''c-converted.mp4''], File ''xxxxxx'')],
              ops =
                [Launch [''v'', ''a.mkv''] [''v'', ''a-converted.tmp.mp4''],
                 Rename [''v'', ''a-converted.tmp.mp4''] [''v'', ''a-converted.mp4''],
                 Unlink [''v'', ''a.mkv''], Unlink [''v'', ''b.mkv''],
                 Launch [''v'', ''sub'', ''c.mkv''] [''v'', ''sub'', ''c-converted.tmp.mp4''],
                 Rename [''v'', ''sub'', ''c-converted.tmp.mp4'']
                        [''v'', ''sub'', ''c-converted.mp4''],
                 Unlink [''v'', ''sub'', ''c.mkv'']]\<rparr>,
           measured = [([''v'', ''a.mkv''], 4, 6), ([''v'', ''sub'', ''c.mkv''], 2, 6)]\<rparr>,
          Total_space_saved ''-0.00'')"
  by (simp add: run_defs tree_demo_def args_live_def enc_large_def)

lemma quotient_examples:
  "mib_quotient (104857600 - 62914560) = Inr 41943040"
  "format_2f 41943040 = ''40.00''"
  "mib_quotient 36028797018969211 = Inr 36028797018969208"
  "format_2f 36028797018969208 = ''34359738368.00''"
  "mib_quotient (- 6) = Inr (- 6)"
  "format_2f (- 6) = ''-0.00''"
  by (simp_all add: mib_quotient_def to_double_def nearest_even_def format_2f_def hundredths_def)

section \<open>The filesystem calls and the transcode step\<close>

lemma map_of_move_tree:
  assumes "map_of t b = None"
  shows "map_of (move_tree a b t) b = map_of t a"
  using assms
proof (induction t)
  case Nil
  then show ?case by (simp add: move_tree_def)
next
  case (Cons qn t)
  obtain q n where qn: "qn = (q, n)" by (cases qn)
  from Cons.prems qn have qb: "q \<noteq> b" and rest: "map_of t b = None"
    by (auto split: if_splits)
  have IH: "map_of (move_tree a b t) b = map_of t a"
    by (rule Cons.IH [OF rest])
  show ?case
  proof (cases "prefix a q")
    case True
    then obtain zs where q: "q = a @ zs" by (auto simp: prefix_def)
    show ?thesis
      using IH qn q by (auto simp: move_tree_def)
  next
    case False
    then have "q \<noteq> a" by auto
    then show ?thesis
      using IH qn qb False by (auto simp: move_tree_def)
  qed
qed

lemma rename_tree_target:
  assumes "rename_tree t a b = Inr t'"
  shows "map_of t' b = map_of t a"
proof (cases "map_of t a")
  case None
  with assms show ?thesis by (simp add: rename_tree_def)
next
  case (Some na)
  show ?thesis
  proof (cases "\<exists>n. na = Dir n")
    case False
    with Some assms have "t' = AList.update b na (AList.delete a t)"
      by (cases na) (auto simp: rename_tree_def split: option.splits node.splits)
    then show ?thesis using Some by (simp add: update_conv')
  next
    case True
    then obtain n where Dir: "na = Dir n" ..
    show ?thesis
    proof (cases "map_of t b")
      case None
      with Some Dir assms have "t' = move_tree a b t"
        by (auto simp: rename_tree_def split: if_splits)
      then show ?thesis using map_of_move_tree [OF None] by simp
    next
      case (Some nb)
      show ?thesis
      proof (cases "a = b")
        case True
        with assms \<open>map_of t a = Some na\<close> Dir Some show ?thesis
          by (auto simp: rename_tree_def split: node.splits)
      next
        case False
        with assms \<open>map_of t a = Some na\<close> Dir Some
        have t': "t' = move_tree a b (AList.delete b t)"
          by (auto simp: rename_tree_def split: node.splits if_splits)
        have "map_of (AList.delete b t) b = None" by (simp add: delete_conv')
        from map_of_move_tree [OF this, of a] t' False show ?thesis
          by (simp add: delete_conv')
      qed
    qed
  qed
qed

lemma rename_target:
  assumes "rename h t a b = Inr t'"
  shows "map_of t' b = map_of t a"
  using assms rename_tree_target [of t a b t']
  by (auto simp: rename_def split: option.splits)

lemma world_update_order:
  "w\<lparr>files := t, ops := l\<rparr> = w\<lparr>ops := l, files := t\<rparr>"
  by (cases w) simp

lemma path_exists_True:
  assumes "path_exists h t p = Inr True"
  shows "stat_refused h p = None" and "map_of t p \<noteq> None"
  using assms
  by (auto simp: path_exists_def stat_def split: option.splits node.splits sum.splits if_splits)

lemma path_exists_missing:
  "stat_refused h p = None \<Longrightarrow> map_of t p = None \<Longrightarrow> path_exists h t p = Inr False"
  by (simp add: path_exists_def stat_def ignore_error_def)

lemma unlink_Inr:
  assumes "unlink h t p = Inr t'"
  shows "t' = AList.delete p t"
  using assms by (auto simp: unlink_def split: option.splits node.splits)

lemma remove_tmp_returns:
  assumes "cleanup_returns h (files w) p"
  shows "\<exists>w' us. remove_tmp h w p = Inr w' \<and> ops w' = ops w @ us \<and> set us \<subseteq> {Unlink p} \<and>
           (\<forall>q. q \<noteq> p \<longrightarrow> map_of (files w') q = map_of (files w) q) \<and>
           path_exists h (files w') p = Inr False"
proof (cases "path_exists h (files w) p")
  case (Inl e)
  with assms show ?thesis by (simp add: cleanup_returns_def)
next
  case (Inr present)
  show ?thesis
  proof (cases present)
    case False
    with Inr have "remove_tmp h w p = Inr w" by (simp add: remove_tmp_def)
    with Inr False show ?thesis by simp
  next
    case True
    with Inr assms obtain t' where u: "unlink h (files w) p = Inr t'"
      by (auto simp: cleanup_returns_def split: sum.splits)
    then have t': "t' = AList.delete p (files w)" by (rule unlink_Inr)
    from Inr True have nr: "stat_refused h p = None" by (simp add: path_exists_True)
    have "remove_tmp h w p = Inr (w\<lparr>ops := ops w @ [Unlink p], files := t'\<rparr>)"
      using Inr True u by (simp add: remove_tmp_def w_unlink_def)
    moreover have "path_exists h t' p = Inr False"
      using nr t' by (simp add: path_exists_missing delete_conv')
    ultimately show ?thesis using t' by (simp add: delete_conv')
  qed
qed

lemma remove_tmp_raises:
  assumes "\<not> cleanup_returns h (files w) p"
  shows "\<exists>e w' us. remove_tmp h w p = Inl (e, w') \<and> files w' = files w \<and>
           ops w' = ops w @ us \<and> set us \<subseteq> {Unlink p}"
proof (cases "path_exists h (files w) p")
  case (Inl e)
  then have "remove_tmp h w p = Inl (e, w)" by (simp add: remove_tmp_def)
  then show ?thesis by simp
next
  case (Inr present)
  with assms have pr: present and ex: "\<exists>e. unlink h (files w) p = Inl e"
    by (auto simp: cleanup_returns_def split: sum.splits)
  from ex obtain e where "unlink h (files w) p = Inl e" ..
  with Inr pr have "remove_tmp h w p = Inl (e, w\<lparr>ops := ops w @ [Unlink p]\<rparr>)"
    by (simp add: remove_tmp_def w_unlink_def)
  then show ?thesis by simp
qed

lemma except_block_returns:
  assumes "cleanup_returns h (files w) p"
  shows "\<exists>w' us. except_block h w p = Inr (w', False) \<and> ops w' = ops w @ us \<and>
           set us \<subseteq> {Unlink p} \<and>
           (\<forall>q. q \<noteq> p \<longrightarrow> map_of (files w') q = map_of (files w) q) \<and>
           path_exists h (files w') p = Inr False"
  using remove_tmp_returns [OF assms] by (auto simp: except_block_def)

lemma except_block_raises:
  assumes "\<not> cleanup_returns h (files w) p"
  shows "\<exists>e w' us. except_block h w p = Inl (e, w') \<and> files w' = files w \<and>
           ops w' = ops w @ us \<and> set us \<subseteq> {Unlink p}"
  using remove_tmp_raises [OF assms] by (auto simp: except_block_def)

text \<open>
  The outcome of \<^verbatim>\<open>transcode_file\<close> in live mode. It returns True when the encoder has
  exited with 0 and the rename has gone through. Otherwise the cleanup decides: when it
  goes through the function returns False, when it raises the function raises.
\<close>

lemma transcode_live_cases:
  assumes sfx: "with_suffix dst ''.tmp.mp4'' = Inr tmp"
  shows "(encoded_and_renamed h (enc (files w) src tmp) tmp dst \<and>
          (\<exists>t t'. enc (files w) src tmp = Exited 0 t \<and> rename h t tmp dst = Inr t' \<and>
             transcode_file h enc w src dst False
               = Inr (w\<lparr>ops := ops w @ [Launch src tmp, Rename tmp dst], files := t'\<rparr>, True))) \<or>
         (\<not> encoded_and_renamed h (enc (files w) src tmp) tmp dst \<and>
          cleanup_returns h (tree_after (enc (files w) src tmp) (files w)) tmp \<and>
          (\<exists>w'. transcode_file h enc w src dst False = Inr (w', False) \<and>
             failure_shape h enc w src tmp dst w' \<and>
             path_exists h (files w') tmp = Inr False)) \<or>
         (\<not> encoded_and_renamed h (enc (files w) src tmp) tmp dst \<and>
          \<not> cleanup_returns h (tree_after (enc (files w) src tmp) (files w)) tmp \<and>
          (\<exists>e w'. transcode_file h enc w src dst False = Inl (e, w') \<and>
             failure_shape h enc w src tmp dst w' \<and>
             files w' = tree_after (enc (files w) src tmp) (files w)))"
proof -
  let ?w0 = "w\<lparr>ops := ops w @ [Launch src tmp]\<rparr>"
  let ?out = "enc (files w) src tmp"
  let ?t1 = "tree_after ?out (files w)"
  have handler: "\<not> encoded_and_renamed h ?out tmp dst \<Longrightarrow>
      (\<exists>t. ?out = Exited 0 t) \<or> set pre \<subseteq> {Unlink tmp} \<Longrightarrow> set pre \<subseteq> {Unlink tmp, Rename tmp dst} \<Longrightarrow>
      files v = ?t1 \<Longrightarrow> ops v = ops w @ Launch src tmp # pre \<Longrightarrow>
      transcode_file h enc w src dst False = except_block h v tmp \<Longrightarrow> ?thesis" for v pre
  proof -
    assume ner: "\<not> encoded_and_renamed h ?out tmp dst"
      and ren: "(\<exists>t. ?out = Exited 0 t) \<or> set pre \<subseteq> {Unlink tmp}"
      and pre: "set pre \<subseteq> {Unlink tmp, Rename tmp dst}"
      and fv: "files v = ?t1" and ov: "ops v = ops w @ Launch src tmp # pre"
      and eq: "transcode_file h enc w src dst False = except_block h v tmp"
    show ?thesis
    proof (cases "cleanup_returns h ?t1 tmp")
      case True
      with fv have "cleanup_returns h (files v) tmp" by simp
      from except_block_returns [OF this] obtain w' us where
        r: "except_block h v tmp = Inr (w', False)" and o: "ops w' = ops v @ us"
        and u: "set us \<subseteq> {Unlink tmp}"
        and m: "\<forall>q. q \<noteq> tmp \<longrightarrow> map_of (files w') q = map_of (files v) q"
        and g: "path_exists h (files w') tmp = Inr False"
        by blast
      have "failure_shape h enc w src tmp dst w'"
        unfolding failure_shape_def
        using o ov u pre ren m fv by (intro exI [of _ "pre @ us"]) auto
      with ner True r g eq show ?thesis by simp
    next
      case False
      with fv have "\<not> cleanup_returns h (files v) tmp" by simp
      from except_block_raises [OF this] obtain e w' us where
        r: "except_block h v tmp = Inl (e, w')" and f: "files w' = files v"
        and o: "ops w' = ops v @ us" and u: "set us \<subseteq> {Unlink tmp}"
        by blast
      have "failure_shape h enc w src tmp dst w'"
        unfolding failure_shape_def
        using o ov u pre ren f fv by (intro exI [of _ "pre @ us"]) auto
      with ner False r f fv eq show ?thesis by simp
    qed
  qed
  show ?thesis
  proof (cases ?out)
    case Launch_failed
    have "transcode_file h enc w src dst False = except_block h ?w0 tmp"
      using sfx Launch_failed by (simp add: transcode_file_def)
    moreover have "\<not> encoded_and_renamed h ?out tmp dst"
      using Launch_failed by (simp add: encoded_and_renamed_def)
    ultimately show ?thesis
      using Launch_failed by (intro handler [of "[]" ?w0]) (simp_all add: tree_after_def)
  next
    case (Stream_failed t)
    have "transcode_file h enc w src dst False = except_block h (?w0\<lparr>files := t\<rparr>) tmp"
      using sfx Stream_failed by (simp add: transcode_file_def)
    moreover have "\<not> encoded_and_renamed h ?out tmp dst"
      using Stream_failed by (simp add: encoded_and_renamed_def)
    ultimately show ?thesis
      using Stream_failed by (intro handler [of "[]" "?w0\<lparr>files := t\<rparr>"]) (simp_all add: tree_after_def)
  next
    case (Exited rc t)
    let ?w1 = "?w0\<lparr>files := t\<rparr>"
    have t1: "?t1 = t" using Exited by (simp add: tree_after_def)
    show ?thesis
    proof (cases "rc = 0")
      case nz: False
      then have ner: "\<not> encoded_and_renamed h ?out tmp dst"
        using Exited by (simp add: encoded_and_renamed_def)
      show ?thesis
      proof (cases "cleanup_returns h t tmp")
        case True
        then have "cleanup_returns h (files ?w1) tmp" by simp
        from remove_tmp_returns [OF this] obtain w' us where
          r: "remove_tmp h ?w1 tmp = Inr w'" and o: "ops w' = ops ?w1 @ us"
          and u: "set us \<subseteq> {Unlink tmp}"
          and m: "\<forall>q. q \<noteq> tmp \<longrightarrow> map_of (files w') q = map_of (files ?w1) q"
          and g: "path_exists h (files w') tmp = Inr False"
          by blast
        have eq: "transcode_file h enc w src dst False = Inr (w', False)"
          using sfx Exited nz r by (simp add: transcode_file_def)
        have "failure_shape h enc w src tmp dst w'"
          unfolding failure_shape_def
          using o u m t1 by (intro exI [of _ us]) auto
        with ner True eq g t1 show ?thesis by simp
      next
        case False
        then have "\<not> cleanup_returns h (files ?w1) tmp" by simp
        from remove_tmp_raises [OF this] obtain e w2 us where
          r: "remove_tmp h ?w1 tmp = Inl (e, w2)" and f: "files w2 = files ?w1"
          and o: "ops w2 = ops ?w1 @ us" and u: "set us \<subseteq> {Unlink tmp}"
          by blast
        have eq: "transcode_file h enc w src dst False = except_block h w2 tmp"
          using sfx Exited nz r by (simp add: transcode_file_def)
        show ?thesis
          using ner u f o t1 eq by (intro handler [of us w2]) auto
      qed
    next
      case z: True
      with Exited have ex: "?out = Exited 0 t" by simp
      show ?thesis
      proof (cases "rename h t tmp dst")
        case (Inr t')
        have "transcode_file h enc w src dst False
               = Inr (w\<lparr>ops := ops w @ [Launch src tmp, Rename tmp dst], files := t'\<rparr>, True)"
          using sfx ex Inr by (simp add: transcode_file_def w_rename_def world_update_order)
        moreover have "encoded_and_renamed h ?out tmp dst"
          using ex Inr by (simp add: encoded_and_renamed_def)
        ultimately show ?thesis using ex Inr by simp
      next
        case (Inl e)
        let ?w2 = "?w1\<lparr>ops := ops ?w1 @ [Rename tmp dst]\<rparr>"
        have eq: "transcode_file h enc w src dst False = except_block h ?w2 tmp"
          using sfx ex Inl by (simp add: transcode_file_def w_rename_def)
        have ner: "\<not> encoded_and_renamed h ?out tmp dst"
          using ex Inl by (simp add: encoded_and_renamed_def)
        show ?thesis
          using ner ex t1 eq by (intro handler [of "[Rename tmp dst]" ?w2]) auto
      qed
    qed
  qed
qed

lemma transcode_failed_outcome:
  assumes sfx: "with_suffix dst ''.tmp.mp4'' = Inr tmp"
    and "\<forall>t. enc (files w) src tmp \<noteq> Exited 0 t"
  shows "\<forall>w'. transcode_file h enc w src dst False \<noteq> Inr (w', True)"
  using transcode_live_cases [where h=h and enc=enc and w=w and src=src, OF sfx] assms(2)
  by auto

lemma transcode_live_trace:
  assumes sfx: "with_suffix dst ''.tmp.mp4'' = Inr tmp"
  shows "\<exists>rest. ops (final_world (transcode_file h enc w src dst False)) = ops w @ Launch src tmp # rest \<and>
           (\<forall>x y. Rename x y \<in> set rest \<longrightarrow>
                    x = tmp \<and> y = dst \<and> (\<exists>t. enc (files w) src tmp = Exited 0 t)) \<and>
           (\<forall>x. Unlink x \<in> set rest \<longrightarrow> x = tmp) \<and>
           (\<forall>x y. Launch x y \<notin> set rest)"
proof -
  from transcode_live_cases [where h=h and enc=enc and w=w and src=src, OF sfx]
  consider
    (renamed) t t' where "enc (files w) src tmp = Exited 0 t"
      "transcode_file h enc w src dst False
         = Inr (w\<lparr>ops := ops w @ [Launch src tmp, Rename tmp dst], files := t'\<rparr>, True)"
  | (returned) w' where "transcode_file h enc w src dst False = Inr (w', False)"
      "failure_shape h enc w src tmp dst w'"
  | (raised) e w' where "transcode_file h enc w src dst False = Inl (e, w')"
      "failure_shape h enc w src tmp dst w'"
    by blast
  then show ?thesis
  proof cases
    case renamed
    then show ?thesis by (simp add: final_world_def)
  next
    case returned
    from returned(2) obtain rest where "ops w' = ops w @ Launch src tmp # rest"
      "set rest \<subseteq> {Unlink tmp, Rename tmp dst}"
      "Rename tmp dst \<in> set rest \<longrightarrow> (\<exists>t. enc (files w) src tmp = Exited 0 t)"
      unfolding failure_shape_def by blast
    with returned(1) show ?thesis
      by (intro exI [of _ rest]) (auto simp: final_world_def)
  next
    case raised
    from raised(2) obtain rest where "ops w' = ops w @ Launch src tmp # rest"
      "set rest \<subseteq> {Unlink tmp, Rename tmp dst}"
      "Rename tmp dst \<in> set rest \<longrightarrow> (\<exists>t. enc (files w) src tmp = Exited 0 t)"
      unfolding failure_shape_def by blast
    with raised(1) show ?thesis
      by (intro exI [of _ rest]) (auto simp: final_world_def)
  qed
qed

lemma transcode_live_artifact:
  assumes sfx: "with_suffix dst ''.tmp.mp4'' = Inr tmp" and ne: "tmp \<noteq> dst"
  shows "map_of (files (final_world (transcode_file h enc w src dst False))) dst
           = map_of (tree_after (enc (files w) src tmp) (files w)) dst \<or>
         ((\<exists>t. enc (files w) src tmp = Exited 0 t) \<and>
          (\<exists>w'. transcode_file h enc w src dst False = Inr (w', True)) \<and>
          map_of (files (final_world (transcode_file h enc w src dst False))) dst
            = map_of (tree_after (enc (files w) src tmp) (files w)) tmp \<and>
          Rename tmp dst \<in> set (ops (final_world (transcode_file h enc w src dst False))))"
proof -
  from transcode_live_cases [where h=h and enc=enc and w=w and src=src, OF sfx]
  consider
    (renamed) t t' where "enc (files w) src tmp = Exited 0 t" "rename h t tmp dst = Inr t'"
      "transcode_file h enc w src dst False
         = Inr (w\<lparr>ops := ops w @ [Launch src tmp, Rename tmp dst], files := t'\<rparr>, True)"
  | (returned) w' where "transcode_file h enc w src dst False = Inr (w', False)"
      "failure_shape h enc w src tmp dst w'"
  | (raised) e w' where "transcode_file h enc w src dst False = Inl (e, w')"
      "failure_shape h enc w src tmp dst w'"
    by blast
  then show ?thesis
  proof cases
    case renamed
    with rename_target [OF renamed(2)] show ?thesis
      by (simp add: final_world_def tree_after_def)
  next
    case returned
    with ne show ?thesis by (auto simp: failure_shape_def final_world_def)
  next
    case raised
    with ne show ?thesis by (auto simp: failure_shape_def final_world_def)
  qed
qed

lemma transcode_dry: "name dst \<noteq> [] \<Longrightarrow> transcode_file h enc w src dst True = Inr (w, True)"
  by (simp add: transcode_file_def with_suffix_def)

section \<open>One turn of the loop\<close>

lemma delete_source_cases:
  "delete_source h s f =
     (case unlink h (files (env s)) f of
        Inl e \<Rightarrow> Inl (e, s\<lparr>env := (env s)\<lparr>ops := ops (env s) @ [Unlink f]\<rparr>\<rparr>)
      | Inr t' \<Rightarrow>
          Inr (s\<lparr>env := (env s)\<lparr>ops := ops (env s) @ [Unlink f], files := t'\<rparr>,
                  deleted := deleted s @ [f]\<rparr>))"
  by (simp add: delete_source_def w_unlink_def Let_def split: sum.splits)

lemma delete_source_Inr:
  assumes "delete_source h s f = Inr s'"
  shows "deleted s' = deleted s @ [f]" "processed s' = processed s" "skipped s' = skipped s"
    "failed s' = failed s" "total_saved s' = total_saved s" "measured s' = measured s"
    "ops (env s') = ops (env s) @ [Unlink f]" "files (env s') = AList.delete f (files (env s))"
  using assms unlink_Inr [of h "files (env s)" f]
  by (auto simp: delete_source_cases split: sum.splits)

lemma skips_True:
  "skips h a t f = Inr True \<longleftrightarrow> path_exists h t (output_path f) = Inr True \<and> \<not> reprocess a"
  by (auto simp: skips_def split: sum.splits)

lemma process_file_nameless: "name f = [] \<Longrightarrow> process_file h enc a s f = Inl (ValueError, s)"
  by (simp add: process_file_def with_name_empty)

lemma process_file_skipped:
  assumes "name f \<noteq> []" and "skips h a (files (env s)) f = Inr True"
  shows "process_file h enc a s f =
           (if commit a \<and> delete a then delete_source h (s\<lparr>skipped := skipped s @ [f]\<rparr>) f
            else Inr (s\<lparr>skipped := skipped s @ [f]\<rparr>))"
  using assms by (simp add: process_file_def with_name_output skips_True Let_def)

lemma process_file_test_raises:
  assumes "name f \<noteq> []" and "skips h a (files (env s)) f = Inl e"
  shows "process_file h enc a s f = Inl (e, s)"
  using assms by (auto simp: process_file_def with_name_output skips_def split: sum.splits)

lemma process_file_not_skipped:
  assumes "name f \<noteq> []" and "skips h a (files (env s)) f = Inr False"
  shows "process_file h enc a s f =
     (case st_size h (files (env s)) f of
        Inl e \<Rightarrow> Inl (e, s)
      | Inr src_size \<Rightarrow>
          (case transcode_file h enc (env s) f (output_path f) (\<not> commit a) of
             Inl (e, w) \<Rightarrow> Inl (e, s\<lparr>env := w\<rparr>)
           | Inr (w, success) \<Rightarrow>
               if success
               then
                 (let s2 = s\<lparr>env := w, processed := processed s @ [(f, output_path f)]\<rparr>
                  in if commit a
                     then (case st_size h (files w) (output_path f) of
                             Inl e \<Rightarrow> Inl (e, s2)
                           | Inr new_size \<Rightarrow>
                               (let s3 = s2\<lparr>total_saved :=
                                               total_saved s2 + (int src_size - int new_size),
                                             measured :=
                                               measured s2 @ [(f, src_size, new_size)]\<rparr>
                                in if delete a then delete_source h s3 f else Inr s3))
                     else Inr s2)
               else Inr (s\<lparr>env := w, failed := failed s @ [f]\<rparr>)))"
proof -
  from assms(2) obtain present where
    pe: "path_exists h (files (env s)) (output_path f) = Inr present"
    and np: "\<not> (present \<and> \<not> reprocess a)"
    by (auto simp: skips_def split: sum.splits)
  note wn = with_name_output [OF assms(1)]
  from np show ?thesis
    by (cases present; cases "reprocess a"; simp add: process_file_def wn pe)
qed

lemma process_file_Inr_cases:
  assumes run: "process_file h enc a s f = Inr s'"
  shows "name f \<noteq> [] \<and>
    ((skips h a (files (env s)) f = Inr True \<and> processed s' = processed s \<and>
      skipped s' = skipped s @ [f] \<and>
      failed s' = failed s \<and> total_saved s' = total_saved s \<and> measured s' = measured s \<and>
      ((\<not> (commit a \<and> delete a) \<and> deleted s' = deleted s \<and> env s' = env s) \<or>
       (commit a \<and> delete a \<and> deleted s' = deleted s @ [f] \<and>
        ops (env s') = ops (env s) @ [Unlink f] \<and>
        files (env s') = AList.delete f (files (env s))))) \<or>
     (skips h a (files (env s)) f = Inr False \<and>
      (\<exists>n w. st_size h (files (env s)) f = Inr n \<and>
         transcode_file h enc (env s) f (output_path f) (\<not> commit a) = Inr (w, False) \<and>
         failed s' = failed s @ [f] \<and> processed s' = processed s \<and> skipped s' = skipped s \<and>
         deleted s' = deleted s \<and> total_saved s' = total_saved s \<and>
         measured s' = measured s \<and> env s' = w)) \<or>
     (skips h a (files (env s)) f = Inr False \<and>
      (\<exists>n w. st_size h (files (env s)) f = Inr n \<and>
         transcode_file h enc (env s) f (output_path f) (\<not> commit a) = Inr (w, True) \<and>
         processed s' = processed s @ [(f, output_path f)] \<and> skipped s' = skipped s \<and>
         failed s' = failed s \<and>
         ((\<not> commit a \<and> total_saved s' = total_saved s \<and> measured s' = measured s \<and>
           deleted s' = deleted s \<and> env s' = w) \<or>
          (commit a \<and>
           (\<exists>m. st_size h (files w) (output_path f) = Inr m \<and>
              total_saved s' = total_saved s + (int n - int m) \<and>
              measured s' = measured s @ [(f, n, m)] \<and>
              ((\<not> delete a \<and> deleted s' = deleted s \<and> env s' = w) \<or>
               (delete a \<and> deleted s' = deleted s @ [f] \<and>
                ops (env s') = ops w @ [Unlink f] \<and>
                files (env s') = AList.delete f (files w)))))))))"
proof -
  have nm: "name f \<noteq> []"
    using run by (auto simp: process_file_nameless)
  show ?thesis
  proof (cases "skips h a (files (env s)) f")
    case (Inl e)
    with run nm show ?thesis by (simp add: process_file_test_raises)
  next
    case (Inr sk)
    show ?thesis
    proof (cases sk)
      case True
      with Inr have sk: "skips h a (files (env s)) f = Inr True" by simp
      show ?thesis
      proof (cases "commit a \<and> delete a")
        case False
        with run sk nm show ?thesis
          by (auto simp: process_file_skipped)
      next
        case cd: True
        with run have ds: "delete_source h (s\<lparr>skipped := skipped s @ [f]\<rparr>) f = Inr s'"
          by (simp add: process_file_skipped [OF nm sk])
        from delete_source_Inr [OF ds] sk nm cd show ?thesis by simp
      qed
    next
      case False
      with Inr have ns: "skips h a (files (env s)) f = Inr False" by simp
      note eq = process_file_not_skipped [OF nm ns, of enc]
      obtain n where n: "st_size h (files (env s)) f = Inr n"
        using run eq by (cases "st_size h (files (env s)) f") auto
      obtain w ok where tr: "transcode_file h enc (env s) f (output_path f) (\<not> commit a) = Inr (w, ok)"
        using run eq n
        by (cases "transcode_file h enc (env s) f (output_path f) (\<not> commit a)") auto
      show ?thesis
      proof (cases ok)
        case False
        with run eq n tr have "s' = s\<lparr>env := w, failed := failed s @ [f]\<rparr>"
          by simp
        with ns nm n tr False show ?thesis by simp
      next
        case ok: True
        show ?thesis
        proof (cases "commit a")
          case False
          with run eq n tr ok have "s' = s\<lparr>env := w, processed := processed s @ [(f, output_path f)]\<rparr>"
            by simp
          with ns nm n tr ok False show ?thesis by simp
        next
          case c: True
          obtain m where m: "st_size h (files w) (output_path f) = Inr m"
            using run eq n tr ok c
            by (cases "st_size h (files w) (output_path f)") auto
          let ?s3 = "s\<lparr>env := w, processed := processed s @ [(f, output_path f)],
                       total_saved := total_saved s + (int n - int m),
                       measured := measured s @ [(f, n, m)]\<rparr>"
          show ?thesis
          proof (cases "delete a")
            case False
            with run eq n tr ok c m have "s' = ?s3"
              by simp
            with ns nm n tr ok c m False show ?thesis by simp
          next
            case d: True
            with run eq n tr ok c m have ds: "delete_source h ?s3 f = Inr s'"
              by simp
            from delete_source_Inr [OF ds] ns nm n tr ok c m d show ?thesis by simp
          qed
        qed
      qed
    qed
  qed
qed

lemma process_file_account:
  assumes "process_file h enc a s f = Inr s'"
  shows "(processed s' = processed s @ [(f, output_path f)] \<and> skipped s' = skipped s \<and>
          failed s' = failed s \<and> (deleted s' = deleted s \<or> deleted s' = deleted s @ [f])) \<or>
         (processed s' = processed s \<and> skipped s' = skipped s @ [f] \<and>
          failed s' = failed s \<and> (deleted s' = deleted s \<or> deleted s' = deleted s @ [f])) \<or>
         (processed s' = processed s \<and> skipped s' = skipped s \<and>
          failed s' = failed s @ [f] \<and> deleted s' = deleted s)"
  using process_file_Inr_cases [OF assms] by blast

lemma process_file_measured:
  assumes "process_file h enc a s f = Inr s'" and "commit a"
  shows "(processed s' = processed s \<and> measured s' = measured s \<and> total_saved s' = total_saved s) \<or>
         (\<exists>n m w. processed s' = processed s @ [(f, output_path f)] \<and>
                  measured s' = measured s @ [(f, n, m)] \<and>
                  total_saved s' = total_saved s + (int n - int m) \<and>
                  st_size h (files (env s)) f = Inr n \<and>
                  transcode_file h enc (env s) f (output_path f) False = Inr (w, True) \<and>
                  st_size h (files w) (output_path f) = Inr m)"
  using process_file_Inr_cases [OF assms(1)] assms(2) by auto

lemma process_file_dry:
  assumes "\<not> commit a"
  shows "(\<exists>e. process_file h enc a s f = Inl (e, s)) \<or>
         (skips h a (files (env s)) f = Inr True \<and>
          process_file h enc a s f = Inr (s\<lparr>skipped := skipped s @ [f]\<rparr>)) \<or>
         (skips h a (files (env s)) f = Inr False \<and>
          process_file h enc a s f = Inr (s\<lparr>processed := processed s @ [(f, output_path f)]\<rparr>))"
proof (cases "name f = []")
  case True
  then show ?thesis by (simp add: process_file_nameless)
next
  case nm: False
  note wn = with_name_output [OF nm]
  show ?thesis
  proof (cases "path_exists h (files (env s)) (output_path f)")
    case (Inl e)
    then show ?thesis by (simp add: process_file_def wn)
  next
    case (Inr present)
    show ?thesis
    proof (cases "present \<and> \<not> reprocess a")
      case True
      with Inr assms show ?thesis by (simp add: process_file_def wn skips_def)
    next
      case False
      show ?thesis
      proof (cases "st_size h (files (env s)) f")
        case (Inl e)
        with Inr False show ?thesis by (auto simp: process_file_def wn)
      next
        case sz: (Inr n)
        have "process_file h enc a s f = Inr (s\<lparr>processed := processed s @ [(f, output_path f)]\<rparr>)"
          using Inr False sz assms by (auto simp: process_file_def wn transcode_dry)
        moreover have "skips h a (files (env s)) f = Inr False"
          using Inr False by (simp add: skips_def)
        ultimately show ?thesis by simp
      qed
    qed
  qed
qed

lemma process_file_after_failed_transcode:
  assumes c: "commit a" and fail: "\<forall>t. enc (files (env s)) file (temp_path file) \<noteq> Exited 0 t"
    and ns: "skips h a (files (env s)) file \<noteq> Inr True"
  shows "final_run (process_file h enc a s file) = s \<or>
         env (final_run (process_file h enc a s file))
           = final_world (transcode_file h enc (env s) file (output_path file) False)"
proof (cases "name file = []")
  case True
  then show ?thesis by (simp add: process_file_nameless final_run_def)
next
  case nm: False
  show ?thesis
  proof (cases "skips h a (files (env s)) file")
    case (Inl e)
    then show ?thesis by (simp add: process_file_test_raises [OF nm] final_run_def)
  next
    case (Inr sk)
    with ns have sk: "skips h a (files (env s)) file = Inr False" by simp
    note eq = process_file_not_skipped [OF nm sk, of enc]
    show ?thesis
    proof (cases "st_size h (files (env s)) file")
      case (Inl e)
      with eq show ?thesis by (simp add: final_run_def)
    next
      case n: (Inr n)
      show ?thesis
      proof (cases "transcode_file h enc (env s) file (output_path file) False")
        case (Inl ew)
        obtain e w where "ew = (e, w)" by (cases ew)
        with Inl n eq c show ?thesis
          by (simp add: final_run_def final_world_def)
      next
        case r: (Inr wok)
        obtain w ok where wok: "wok = (w, ok)" by (cases wok)
        from transcode_failed_outcome [where h=h and enc=enc and w="env s" and src="file",
            OF with_suffix_output fail] r wok
        have "\<not> ok" by auto
        with r wok n eq c show ?thesis
          by (simp add: final_run_def final_world_def)
      qed
    qed
  qed
qed

section \<open>The loop and the run\<close>

lemma main_Inr:
  "main h enc t a = Inr (s, c) \<longleftrightarrow>
     (\<exists>ts. find_target_files h t (start a) (ext a) (recursive a) = Inr ts \<and>
           main_loop h enc a (init_run t) ts = Inr s \<and> closing_line a s = Inr c)"
  by (auto simp: main_def split: sum.splits)

lemma main_final_state:
  "final_state (main h enc t a) =
     (case find_target_files h t (start a) (ext a) (recursive a) of
        Inl e \<Rightarrow> init_run t
      | Inr ts \<Rightarrow> final_run (main_loop h enc a (init_run t) ts))"
  by (auto simp: main_def final_state_def final_run_def split: sum.splits)

lemma main_loop_dry_frame:
  assumes "\<not> commit a"
  shows "env (final_run (main_loop h enc a s ts)) = env s \<and>
         deleted (final_run (main_loop h enc a s ts)) = deleted s \<and>
         failed (final_run (main_loop h enc a s ts)) = failed s"
proof (induction ts arbitrary: s)
  case Nil
  show ?case by (simp add: final_run_def)
next
  case (Cons f ts)
  from process_file_dry [OF assms, of h enc s f]
  consider (raised) e where "process_file h enc a s f = Inl (e, s)"
    | (skipped) "process_file h enc a s f = Inr (s\<lparr>skipped := skipped s @ [f]\<rparr>)"
    | (processed) "process_file h enc a s f = Inr (s\<lparr>processed := processed s @ [(f, output_path f)]\<rparr>)"
    by blast
  then show ?case
  proof cases
    case raised
    then show ?thesis by (simp add: final_run_def)
  next
    case skipped
    with Cons.IH [of "s\<lparr>skipped := skipped s @ [f]\<rparr>"] show ?thesis by simp
  next
    case processed
    with Cons.IH [of "s\<lparr>processed := processed s @ [(f, output_path f)]\<rparr>"] show ?thesis by simp
  qed
qed

lemma main_loop_dry_returns:
  assumes "\<not> commit a" and "main_loop h enc a s ts = Inr s'"
  shows "processed s' = processed s @ map (\<lambda>f. (f, output_path f))
                            (filter (\<lambda>f. skips h a (files (env s)) f \<noteq> Inr True) ts) \<and>
         skipped s' = skipped s @ filter (\<lambda>f. skips h a (files (env s)) f = Inr True) ts"
  using assms(2)
proof (induction ts arbitrary: s)
  case Nil
  then show ?case by simp
next
  case (Cons f ts)
  from Cons.prems obtain s1 where step: "process_file h enc a s f = Inr s1"
    and rest: "main_loop h enc a s1 ts = Inr s'"
    by (auto split: sum.splits)
  from process_file_dry [OF assms(1), of h enc s f] step
  consider (skipped) "skips h a (files (env s)) f = Inr True" "s1 = s\<lparr>skipped := skipped s @ [f]\<rparr>"
    | (processed) "skips h a (files (env s)) f = Inr False"
        "s1 = s\<lparr>processed := processed s @ [(f, output_path f)]\<rparr>"
    by auto
  then show ?case
  proof cases
    case skipped
    with Cons.IH [OF rest] show ?thesis by simp
  next
    case processed
    with Cons.IH [OF rest] show ?thesis by simp
  qed
qed

lemma main_loop_account:
  assumes "main_loop h enc a s ts = Inr s'" and "distinct ts"
  shows "\<exists>P S F. processed_sources s' = processed_sources s @ P \<and>
           skipped s' = skipped s @ S \<and> failed s' = failed s @ F \<and>
           set P \<union> set S \<union> set F = set ts \<and> distinct (P @ S @ F) \<and>
           set (deleted s') \<subseteq> set (deleted s) \<union> set P \<union> set S"
  using assms
proof (induction ts arbitrary: s)
  case Nil
  then show ?case by simp
next
  case (Cons f ts)
  from Cons.prems(1) obtain s1 where step: "process_file h enc a s f = Inr s1"
    and rest: "main_loop h enc a s1 ts = Inr s'"
    by (auto split: sum.splits)
  from Cons.prems(2) have d: "distinct ts" and nf: "f \<notin> set ts" by auto
  from Cons.IH [OF rest d] obtain P S F where
    ih: "processed_sources s' = processed_sources s1 @ P" "skipped s' = skipped s1 @ S"
        "failed s' = failed s1 @ F" "set P \<union> set S \<union> set F = set ts" "distinct (P @ S @ F)"
        "set (deleted s') \<subseteq> set (deleted s1) \<union> set P \<union> set S"
    by blast
  from ih(4) nf have nfP: "f \<notin> set P" "f \<notin> set S" "f \<notin> set F" by auto
  have "(processed s1 = processed s @ [(f, output_path f)] \<and> skipped s1 = skipped s \<and>
         failed s1 = failed s \<and> set (deleted s1) \<subseteq> set (deleted s) \<union> {f}) \<or>
        (processed s1 = processed s \<and> skipped s1 = skipped s @ [f] \<and>
         failed s1 = failed s \<and> set (deleted s1) \<subseteq> set (deleted s) \<union> {f}) \<or>
        (processed s1 = processed s \<and> skipped s1 = skipped s \<and>
         failed s1 = failed s @ [f] \<and> deleted s1 = deleted s)"
    using process_file_account [OF step] by auto
  then consider
    (p) "processed s1 = processed s @ [(f, output_path f)]" "skipped s1 = skipped s"
        "failed s1 = failed s" "set (deleted s1) \<subseteq> set (deleted s) \<union> {f}"
  | (s) "processed s1 = processed s" "skipped s1 = skipped s @ [f]"
        "failed s1 = failed s" "set (deleted s1) \<subseteq> set (deleted s) \<union> {f}"
  | (f) "processed s1 = processed s" "skipped s1 = skipped s"
        "failed s1 = failed s @ [f]" "deleted s1 = deleted s"
    by blast
  then show ?case
  proof cases
    case p
    have "processed_sources s' = processed_sources s @ (f # P) \<and>
           skipped s' = skipped s @ S \<and> failed s' = failed s @ F \<and>
           set (f # P) \<union> set S \<union> set F = set (f # ts) \<and> distinct ((f # P) @ S @ F) \<and>
           set (deleted s') \<subseteq> set (deleted s) \<union> set (f # P) \<union> set S"
      using ih p nfP by (auto simp: processed_sources_def)
    then show ?thesis by blast
  next
    case s
    have "processed_sources s' = processed_sources s @ P \<and>
           skipped s' = skipped s @ (f # S) \<and> failed s' = failed s @ F \<and>
           set P \<union> set (f # S) \<union> set F = set (f # ts) \<and> distinct (P @ (f # S) @ F) \<and>
           set (deleted s') \<subseteq> set (deleted s) \<union> set P \<union> set (f # S)"
      using ih s nfP by (auto simp: processed_sources_def)
    then show ?thesis by blast
  next
    case f
    have "processed_sources s' = processed_sources s @ P \<and>
           skipped s' = skipped s @ S \<and> failed s' = failed s @ (f # F) \<and>
           set P \<union> set S \<union> set (f # F) = set (f # ts) \<and> distinct (P @ S @ (f # F)) \<and>
           set (deleted s') \<subseteq> set (deleted s) \<union> set P \<union> set S"
      using ih f nfP by (auto simp: processed_sources_def)
    then show ?thesis by blast
  qed
qed

lemma main_loop_total:
  assumes "main_loop h enc a s ts = Inr s'" and "commit a"
    and "map fst (measured s) = processed_sources s"
  shows "total_saved s' - measured_sum (measured s') = total_saved s - measured_sum (measured s) \<and>
         map fst (measured s') = processed_sources s'"
  using assms(1,3)
proof (induction ts arbitrary: s)
  case Nil
  then show ?case by simp
next
  case (Cons f ts)
  from Cons.prems(1) obtain s1 where step: "process_file h enc a s f = Inr s1"
    and rest: "main_loop h enc a s1 ts = Inr s'"
    by (auto split: sum.splits)
  from process_file_measured [OF step assms(2)] Cons.prems(2)
  have inv: "total_saved s1 - measured_sum (measured s1) = total_saved s - measured_sum (measured s)"
    and m1: "map fst (measured s1) = processed_sources s1"
    by (auto simp: measured_sum_def processed_sources_def)
  from Cons.IH [OF rest m1] inv show ?case by simp
qed


section \<open>The division by \<open>2^20\<close>\<close>

lemma bit_length_le: "n < 2 ^ k \<Longrightarrow> bit_length n \<le> k"
proof (induction k arbitrary: n)
  case 0
  then show ?case by simp
next
  case (Suc k)
  show ?case
  proof (cases "n = 0")
    case True
    then show ?thesis by simp
  next
    case False
    from Suc.prems have "n div 2 < 2 ^ k" by simp
    from Suc.IH [OF this] False show ?thesis by simp
  qed
qed

lemma to_double_exact: "n < 2 ^ 53 \<Longrightarrow> to_double n = n"
  using bit_length_le [of n 53] by (simp add: to_double_def nearest_even_def)

lemma mib_quotient_exact:
  assumes "\<bar>n\<bar> < 2 ^ 53"
  shows "mib_quotient n = Inr n"
proof -
  from assms have lt: "nat \<bar>n\<bar> < 2 ^ 53"
    by (simp add: nat_less_iff)
  have "(2::nat) ^ 53 < 2 ^ 1044"
    by (rule power_strict_increasing) simp_all
  with lt have "\<not> 2 ^ 1044 \<le> nat \<bar>n\<bar>" by simp
  moreover have "sgn n * int (nat \<bar>n\<bar>) = n"
    by (simp add: mult_sgn_abs)
  ultimately show ?thesis
    using to_double_exact [OF lt] by (simp add: mib_quotient_def)
qed

section \<open>Names that the host refuses\<close>

lemma long_source_paths:
  "name long_source \<noteq> []"
  "output_path long_source = [''v'', replicate 250 (CHR ''a'') @ ''-converted.mp4'']"
  "stat_refused posix_host long_source = None"
  "stat_refused posix_host (output_path long_source) = Some FileNameTooLong"
proof -
  show n: "name long_source \<noteq> []" by (simp add: long_source_def name_def)
  have "stem long_source = replicate 250 (CHR ''a'')"
    using stem_of_last_dot [of "''mkv''" "replicate 250 (CHR ''a'')"]
    by (simp add: stem_def long_source_def name_def)
  then show o: "output_path long_source = [''v'', replicate 250 (CHR ''a'') @ ''-converted.mp4'']"
    by (simp add: output_path_def long_source_def)
  show "stat_refused posix_host long_source = None"
    by (simp add: posix_host_def too_long_def name_max_def long_source_def)
  show "stat_refused posix_host (output_path long_source) = Some FileNameTooLong"
    by (simp add: o posix_host_def too_long_def name_max_def)
qed

lemma skips_long: "skips posix_host a t long_source = Inl FileNameTooLong"
  by (simp add: skips_def path_exists_def stat_def long_source_paths(4) ignore_error_def)

lemma targets_long:
  "find_target_files posix_host tree_long [''v''] ''mkv'' True = Inr [long_source, [''v'', ''a.mkv'']]"
  by (simp add: find_target_files_def rglob_def is_dir_def stat_def posix_host_def too_long_def
      name_max_def tree_long_def long_source_def matches_def endswith_def)

lemma main_long_dry:
  "main posix_host enc_good tree_long args_dry = Inl (FileNameTooLong, init_run tree_long)"
  using targets_long
  by (simp add: main_def args_dry_def process_file_test_raises [OF long_source_paths(1) skips_long])

lemma mid_source_paths:
  "name mid_source \<noteq> []"
  "output_path mid_source = [''v'', replicate 240 (CHR ''b'') @ ''-converted.mp4'']"
  "temp_path mid_source = [''v'', replicate 240 (CHR ''b'') @ ''-converted.tmp.mp4'']"
proof -
  show "name mid_source \<noteq> []" by (simp add: mid_source_def name_def)
  have st: "stem mid_source = replicate 240 (CHR ''b'')"
    using stem_of_last_dot [of "''mkv''" "replicate 240 (CHR ''b'')"]
    by (simp add: stem_def mid_source_def name_def)
  show "output_path mid_source = [''v'', replicate 240 (CHR ''b'') @ ''-converted.mp4'']"
    by (simp add: output_path_def st) (simp add: mid_source_def)
  show "temp_path mid_source = [''v'', replicate 240 (CHR ''b'') @ ''-converted.tmp.mp4'']"
    by (simp add: temp_path_def st) (simp add: mid_source_def)
qed

lemma mid_source_refused:
  "stat_refused posix_host mid_source = None"
  "stat_refused posix_host (output_path mid_source) = None"
  "stat_refused posix_host (temp_path mid_source) = Some FileNameTooLong"
  by (simp_all add: mid_source_paths posix_host_def too_long_def name_max_def)
     (simp add: mid_source_def)

section \<open>Dry runs\<close>

text \<open>
  Claim C3. With commit mode off, a run changes nothing: for every host, directory
  tree, encoder and setting of the other flags (\<^verbatim>\<open>--delete\<close> included), whether the run
  ends normally or an exception ends it, the directory tree afterwards is the tree
  before, the program has issued no launch of the encoder, no unlink and no rename, and
  no source is recorded as deleted. A run that ends normally closes with the notice
  that nothing was modified.
\<close>

theorem dry_run_changes_nothing:
  assumes "\<not> commit a"
  shows "files (env (final_state (main h enc t a))) = t \<and>
         ops (env (final_state (main h enc t a))) = [] \<and>
         deleted (final_state (main h enc t a)) = [] \<and>
         (\<forall>s c. main h enc t a = Inr (s, c) \<longrightarrow> c = Dry_run_notice)"
proof -
  have "env (final_state (main h enc t a)) = env (init_run t) \<and>
        deleted (final_state (main h enc t a)) = deleted (init_run t)"
    using main_loop_dry_frame [OF assms, of h enc "init_run t"]
    by (simp add: main_final_state split: sum.splits)
  moreover have "\<forall>s c. main h enc t a = Inr (s, c) \<longrightarrow> c = Dry_run_notice"
    using assms by (auto simp: main_Inr closing_line_def)
  ultimately show ?thesis by (simp add: init_run_def)
qed

theorem dry_run_changes_nothing_witness:
  "\<not> commit args_dry \<and> delete args_dry \<and>
   main posix_host enc_good tree_link args_dry = Inl (FileNotFoundError, init_run tree_link) \<and>
   main posix_host enc_good tree_long args_dry = Inl (FileNameTooLong, init_run tree_long) \<and>
   files (env (final_state (main posix_host enc_good tree_link args_dry))) = tree_link \<and>
   ops (env (final_state (main posix_host enc_good tree_link args_dry))) = [] \<and>
   (\<exists>s. main posix_host enc_bad tree_demo args_dry = Inr (s, Dry_run_notice) \<and>
        skipped s = [[''v'', ''b.mkv'']] \<and> deleted s = [] \<and>
        files (env s) = tree_demo \<and> ops (env s) = [])"
proof -
  have c: "\<not> commit args_dry" and d: "delete args_dry" by (simp_all add: args_dry_def)
  from dry_run_changes_nothing [OF c, of posix_host enc_good tree_link]
  have 1: "files (env (final_state (main posix_host enc_good tree_link args_dry))) = tree_link \<and>
   ops (env (final_state (main posix_host enc_good tree_link args_dry))) = []"
    by simp
  from dry_run_changes_nothing [OF c, of posix_host enc_bad tree_demo] main_dry_demo
  have 2: "\<exists>s. main posix_host enc_bad tree_demo args_dry = Inr (s, Dry_run_notice) \<and>
        skipped s = [[''v'', ''b.mkv'']] \<and> deleted s = [] \<and>
        files (env s) = tree_demo \<and> ops (env s) = []"
    by (simp add: final_state_def)
  from c d main_dry_link main_long_dry 1 2 show ?thesis by blast
qed

text \<open>
  Claim C9. In a dry run the transcode step returns success for every candidate,
  whatever the encoder would do, so \<^verbatim>\<open>failed\<close> stays empty, whether the run ends
  normally or an exception of \<^verbatim>\<open>main\<close> ends it. At the end of a dry run that ends
  normally the sources in \<^verbatim>\<open>processed\<close> are exactly the candidates that were not
  skipped, in scan order.
\<close>

theorem dry_run_never_fails:
  assumes "\<not> commit a"
  shows "(\<forall>ts. find_target_files h t (start a) (ext a) (recursive a) = Inr ts \<longrightarrow>
            (\<forall>f\<in>set ts. \<forall>w.
               transcode_file h enc w f (output_path f) (\<not> commit a) = Inr (w, True))) \<and>
         failed (final_state (main h enc t a)) = [] \<and>
         (\<forall>s c. main h enc t a = Inr (s, c) \<longrightarrow>
            failed s = [] \<and>
            (\<exists>ts. find_target_files h t (start a) (ext a) (recursive a) = Inr ts \<and>
               processed_sources s = filter (\<lambda>f. f \<notin> set (skipped s)) ts))"
proof (intro conjI allI impI ballI)
  fix ts f w
  show "transcode_file h enc w f (output_path f) (\<not> commit a) = Inr (w, True)"
    using assms by (simp add: transcode_dry)
next
  show fl: "failed (final_state (main h enc t a)) = []"
    using main_loop_dry_frame [OF assms, of h enc "init_run t"]
    by (simp add: main_final_state init_run_def split: sum.splits)
  fix s c
  assume m: "main h enc t a = Inr (s, c)"
  with fl show "failed s = []" by (simp add: final_state_def)
  from m obtain ts where ts: "find_target_files h t (start a) (ext a) (recursive a) = Inr ts"
    and ml: "main_loop h enc a (init_run t) ts = Inr s"
    by (auto simp: main_Inr)
  let ?sk = "\<lambda>f. skips h a t f = Inr True"
  from main_loop_dry_returns [OF assms ml]
  have p: "processed_sources s = filter (\<lambda>f. \<not> ?sk f) ts" and k: "skipped s = filter ?sk ts"
    by (simp_all add: processed_sources_def init_run_def comp_def)
  have "filter (\<lambda>f. \<not> ?sk f) ts = filter (\<lambda>f. f \<notin> set (skipped s)) ts"
    by (rule filter_cong) (auto simp: k)
  with p ts
  show "\<exists>ts. find_target_files h t (start a) (ext a) (recursive a) = Inr ts \<and>
               processed_sources s = filter (\<lambda>f. f \<notin> set (skipped s)) ts"
    by simp
qed

theorem dry_run_never_fails_witness:
  "\<not> commit args_dry \<and>
   transcode_file posix_host enc_bad \<lparr>files = tree_demo, ops = []\<rparr> [''v'', ''a.mkv'']
       (output_path [''v'', ''a.mkv'']) True
     = Inr (\<lparr>files = tree_demo, ops = []\<rparr>, True) \<and>
   failed (final_state (main posix_host enc_good tree_link args_dry)) = [] \<and>
   (\<exists>s. main posix_host enc_bad tree_demo args_dry = Inr (s, Dry_run_notice) \<and> failed s = [] \<and>
        skipped s = [[''v'', ''b.mkv'']] \<and>
        processed_sources s = filter (\<lambda>f. f \<notin> set (skipped s))
          [[''v'', ''a.mkv''], [''v'', ''b.mkv''], [''v'', ''sub'', ''c.mkv'']])"
proof -
  have c: "\<not> commit args_dry" by (simp add: args_dry_def)
  have a: "start args_dry = [''v'']" "ext args_dry = ''mkv''" "recursive args_dry"
    by (simp_all add: args_dry_def)
  from dry_run_never_fails [OF c, of posix_host tree_demo enc_bad] targets_tree_demo a c
  have 1: "transcode_file posix_host enc_bad \<lparr>files = tree_demo, ops = []\<rparr> [''v'', ''a.mkv'']
       (output_path [''v'', ''a.mkv'']) True
     = Inr (\<lparr>files = tree_demo, ops = []\<rparr>, True)"
    by simp
  from dry_run_never_fails [OF c, of posix_host tree_link enc_good]
  have 2: "failed (final_state (main posix_host enc_good tree_link args_dry)) = []"
    by simp
  from dry_run_never_fails [OF c, of posix_host tree_demo enc_bad] targets_tree_demo a main_dry_demo
  have 3: "\<exists>s. main posix_host enc_bad tree_demo args_dry = Inr (s, Dry_run_notice) \<and> failed s = [] \<and>
        skipped s = [[''v'', ''b.mkv'']] \<and>
        processed_sources s = filter (\<lambda>f. f \<notin> set (skipped s))
          [[''v'', ''a.mkv''], [''v'', ''b.mkv''], [''v'', ''sub'', ''c.mkv'']]"
    by simp
  from c 1 2 3 show ?thesis by blast
qed

section \<open>The scanner and existing artifacts\<close>

text \<open>
  Claim C10. The scanner applies no filter but the extension: an entry below the start
  directory (a direct child, or at any depth when the scan is recursive) whose name
  matches is a candidate. A name \<open>x-converted.mp4\<close> matches the extension \<open>mp4\<close>, and
  the output path derived from such a candidate is \<open>x-converted-converted.mp4\<close> in the
  same directory.
\<close>

theorem scanner_keeps_artifacts:
  assumes "is_dir h t root = Inr True" and "(root @ sub @ [nm], n) \<in> set t" and "matches e nm"
    and "r \<or> sub = []"
  shows "(\<exists>ts. find_target_files h t root e r = Inr ts \<and> root @ sub @ [nm] \<in> set ts) \<and>
         matches ''mp4'' (x @ ''-converted.mp4'') \<and>
         with_name (root @ sub @ [x @ ''-converted.mp4''])
                   (stem (root @ sub @ [x @ ''-converted.mp4'']) @ ''-converted.mp4'')
           = Inr (root @ sub @ [x @ ''-converted-converted.mp4''])"
proof (intro conjI)
  have in_t: "root @ sub @ [nm] \<in> fst ` set t"
    using assms(2) by force
  show "\<exists>ts. find_target_files h t root e r = Inr ts \<and> root @ sub @ [nm] \<in> set ts"
  proof (cases r)
    case True
    then show ?thesis
      using assms(1,3) in_t by (simp add: find_target_files_def rglob_def)
  next
    case False
    with assms(4) have "sub = []" by simp
    then show ?thesis
      using False assms(1,3) in_t by (simp add: find_target_files_def glob_def)
  qed
  show "matches ''mp4'' (x @ ''-converted.mp4'')"
    by (simp add: matches_def endswith_def)
  have "butlast (root @ sub @ [x @ ''-converted.mp4'']) = root @ sub"
    by (simp add: butlast_append)
  then show "with_name (root @ sub @ [x @ ''-converted.mp4''])
                   (stem (root @ sub @ [x @ ''-converted.mp4'']) @ ''-converted.mp4'')
           = Inr (root @ sub @ [x @ ''-converted-converted.mp4''])"
    using stem_of_converted [of x]
    by (simp add: with_name_def stem_def name_def)
qed

theorem scanner_keeps_artifacts_witness:
  "is_dir posix_host tree_mp4 [''v''] = Inr True \<and>
   ([''v'', ''x-converted.mp4''], File ''xx'') \<in> set tree_mp4 \<and>
   matches ''mp4'' ''x-converted.mp4'' \<and>
   find_target_files posix_host tree_mp4 [''v''] ''mp4'' False
     = Inr [[''v'', ''x.mp4''], [''v'', ''x-converted.mp4'']] \<and>
   with_name [''v'', ''x-converted.mp4''] (stem [''v'', ''x-converted.mp4''] @ ''-converted.mp4'')
     = Inr [''v'', ''x-converted-converted.mp4'']"
proof -
  have d: "is_dir posix_host tree_mp4 [''v''] = Inr True"
    by (simp add: run_defs tree_mp4_def)
  have i: "([''v'', ''x-converted.mp4''], File ''xx'') \<in> set tree_mp4"
    by (simp add: tree_mp4_def)
  have m: "matches ''mp4'' ''x-converted.mp4''"
    by (simp add: matches_def endswith_def)
  have f: "find_target_files posix_host tree_mp4 [''v''] ''mp4'' False
     = Inr [[''v'', ''x.mp4''], [''v'', ''x-converted.mp4'']]"
    by (simp add: run_defs tree_mp4_def)
  from scanner_keeps_artifacts [of posix_host tree_mp4 "[''v'']" "[]" "''x-converted.mp4''"
      "File ''xx''" "''mp4''" False "''x''"] d i m
  have "with_name [''v'', ''x-converted.mp4''] (stem [''v'', ''x-converted.mp4''] @ ''-converted.mp4'')
     = Inr [''v'', ''x-converted-converted.mp4'']"
    by simp
  with d i m f show ?thesis by blast
qed

section \<open>Skipping a candidate that is already converted\<close>

text \<open>
  Claim C5, as the code has it. Let \<^verbatim>\<open>exists()\<close> be true of the output path of a
  candidate (its stem followed by \<open>-converted.mp4\<close>, in the same directory) when the
  candidate's turn comes, and let \<^verbatim>\<open>--reprocess\<close> be absent. Then the candidate is
  appended to \<^verbatim>\<open>skipped\<close> and the turn launches no encoder. Unless both commit mode and
  \<^verbatim>\<open>--delete\<close> are on, nothing else changes. With both on the source is unlinked. When
  the unlink goes through, the source is gone from the directory tree and the candidate
  is appended to \<^verbatim>\<open>deleted\<close> as well. When the unlink raises (the source is a
  directory, or the host refuses), the exception leaves the loop: the candidate is in
  \<^verbatim>\<open>skipped\<close> only and the directory tree is as before.
\<close>

theorem skip_existing_artifact:
  assumes "with_name file (stem file @ ''-converted.mp4'') = Inr dst"
    and "path_exists h (files (env s)) dst = Inr True" and "\<not> reprocess a"
  shows "(\<not> (commit a \<and> delete a) \<longrightarrow>
            process_file h enc a s file = Inr (s\<lparr>skipped := skipped s @ [file]\<rparr>)) \<and>
         (commit a \<and> delete a \<longrightarrow>
            (\<forall>t'. unlink h (files (env s)) file = Inr t' \<longrightarrow>
               (\<exists>s'. process_file h enc a s file = Inr s' \<and>
                     skipped s' = skipped s @ [file] \<and> deleted s' = deleted s @ [file] \<and>
                     map_of (files (env s')) file = None \<and>
                     files (env s') = AList.delete file (files (env s)) \<and>
                     ops (env s') = ops (env s) @ [Unlink file] \<and>
                     processed s' = processed s \<and> failed s' = failed s \<and>
                     total_saved s' = total_saved s)) \<and>
            (\<forall>e. unlink h (files (env s)) file = Inl e \<longrightarrow>
               (\<exists>s'. process_file h enc a s file = Inl (e, s') \<and>
                     skipped s' = skipped s @ [file] \<and> deleted s' = deleted s \<and>
                     files (env s') = files (env s) \<and>
                     ops (env s') = ops (env s) @ [Unlink file] \<and>
                     processed s' = processed s \<and> failed s' = failed s))) \<and>
         skipped (final_run (process_file h enc a s file)) = skipped s @ [file] \<and>
         (\<forall>x y. Launch x y \<in> set (ops (env (final_run (process_file h enc a s file))))
                  \<longrightarrow> Launch x y \<in> set (ops (env s)))"
proof -
  from assms(1) have nm: "name file \<noteq> []" and dst: "dst = output_path file"
    by (auto simp: with_name_def output_path_def split: if_splits)
  from assms(2,3) dst have sk: "skips h a (files (env s)) file = Inr True"
    by (simp add: skips_True)
  note eq = process_file_skipped [OF nm sk, of enc]
  have 1: "\<not> (commit a \<and> delete a) \<longrightarrow>
            process_file h enc a s file = Inr (s\<lparr>skipped := skipped s @ [file]\<rparr>)"
    using eq by simp
  have 2: "commit a \<and> delete a \<longrightarrow>
            (\<forall>t'. unlink h (files (env s)) file = Inr t' \<longrightarrow>
               (\<exists>s'. process_file h enc a s file = Inr s' \<and>
                     skipped s' = skipped s @ [file] \<and> deleted s' = deleted s @ [file] \<and>
                     map_of (files (env s')) file = None \<and>
                     files (env s') = AList.delete file (files (env s)) \<and>
                     ops (env s') = ops (env s) @ [Unlink file] \<and>
                     processed s' = processed s \<and> failed s' = failed s \<and>
                     total_saved s' = total_saved s))"
    using eq unlink_Inr [of h "files (env s)" "file"]
    by (auto simp: delete_source_cases delete_conv')
  have 3: "commit a \<and> delete a \<longrightarrow>
            (\<forall>e. unlink h (files (env s)) file = Inl e \<longrightarrow>
               (\<exists>s'. process_file h enc a s file = Inl (e, s') \<and>
                     skipped s' = skipped s @ [file] \<and> deleted s' = deleted s \<and>
                     files (env s') = files (env s) \<and>
                     ops (env s') = ops (env s) @ [Unlink file] \<and>
                     processed s' = processed s \<and> failed s' = failed s))"
    using eq by (auto simp: delete_source_cases)
  have 4: "skipped (final_run (process_file h enc a s file)) = skipped s @ [file]"
    using eq by (simp add: delete_source_cases final_run_def split: sum.splits)
  have 5: "\<forall>x y. Launch x y \<in> set (ops (env (final_run (process_file h enc a s file))))
                  \<longrightarrow> Launch x y \<in> set (ops (env s))"
    using eq by (simp add: delete_source_cases final_run_def split: sum.splits)
  from 1 2 3 4 5 show ?thesis by blast
qed

theorem skip_existing_artifact_witness:
  "with_name [''v'', ''b.mkv''] (stem [''v'', ''b.mkv''] @ ''-converted.mp4'')
     = Inr [''v'', ''b-converted.mp4''] \<and>
   path_exists posix_host (files (env (init_run tree_demo))) [''v'', ''b-converted.mp4''] = Inr True \<and>
   \<not> reprocess args_live \<and> commit args_live \<and> delete args_live \<and>
   unlink posix_host (files (env (init_run tree_demo))) [''v'', ''b.mkv'']
     = Inr (AList.delete [''v'', ''b.mkv''] tree_demo) \<and>
   (\<exists>s'. process_file posix_host enc_good args_live (init_run tree_demo) [''v'', ''b.mkv''] = Inr s' \<and>
         skipped s' = [[''v'', ''b.mkv'']] \<and> deleted s' = [[''v'', ''b.mkv'']] \<and>
         map_of (files (env s')) [''v'', ''b.mkv''] = None \<and>
         ops (env s') = [Unlink [''v'', ''b.mkv'']]) \<and>
   path_exists posix_host (files (env (init_run tree_dir_source))) [''v'', ''d-converted.mp4'']
     = Inr True \<and>
   unlink posix_host (files (env (init_run tree_dir_source))) [''v'', ''d.mkv'']
     = Inl IsADirectoryError \<and>
   (\<exists>s'. process_file posix_host enc_good args_live (init_run tree_dir_source) [''v'', ''d.mkv'']
           = Inl (IsADirectoryError, s') \<and>
         skipped s' = [[''v'', ''d.mkv'']] \<and> deleted s' = [] \<and>
         files (env s') = tree_dir_source) \<and>
   \<not> reprocess args_dry \<and> \<not> (commit args_dry \<and> delete args_dry) \<and>
   process_file posix_host enc_good args_dry (init_run tree_demo) [''v'', ''b.mkv'']
     = Inr ((init_run tree_demo)\<lparr>skipped := [[''v'', ''b.mkv'']]\<rparr>)"
proof -
  have wn: "with_name [''v'', ''b.mkv''] (stem [''v'', ''b.mkv''] @ ''-converted.mp4'')
     = Inr [''v'', ''b-converted.mp4'']"
    using with_name_output [OF paths_b(1)] by (simp add: paths_b)
  have ex: "path_exists posix_host (files (env (init_run tree_demo))) [''v'', ''b-converted.mp4'']
     = Inr True"
    by (simp add: run_defs tree_demo_def)
  have u: "unlink posix_host (files (env (init_run tree_demo))) [''v'', ''b.mkv'']
     = Inr (AList.delete [''v'', ''b.mkv''] tree_demo)"
    by (simp add: run_defs tree_demo_def)
  have nl: "\<not> reprocess args_live" and cd: "commit args_live \<and> delete args_live"
    by (simp_all add: args_live_def)
  have nd: "\<not> reprocess args_dry" and ncd: "\<not> (commit args_dry \<and> delete args_dry)"
    by (simp_all add: args_dry_def)
  from skip_existing_artifact [OF wn ex nl, of enc_good] cd u
  have live: "\<exists>s'. process_file posix_host enc_good args_live (init_run tree_demo) [''v'', ''b.mkv''] = Inr s' \<and>
         skipped s' = [[''v'', ''b.mkv'']] \<and> deleted s' = [[''v'', ''b.mkv'']] \<and>
         map_of (files (env s')) [''v'', ''b.mkv''] = None \<and>
         ops (env s') = [Unlink [''v'', ''b.mkv'']]"
    by (auto simp: init_run_def)
  from skip_existing_artifact [OF wn ex nd, of enc_good] ncd
  have dry: "process_file posix_host enc_good args_dry (init_run tree_demo) [''v'', ''b.mkv'']
     = Inr ((init_run tree_demo)\<lparr>skipped := [[''v'', ''b.mkv'']]\<rparr>)"
    by (simp add: init_run_def)
  have wd: "with_name [''v'', ''d.mkv''] (stem [''v'', ''d.mkv''] @ ''-converted.mp4'')
     = Inr [''v'', ''d-converted.mp4'']"
    using with_name_output [OF paths_d(1)] by (simp add: paths_d)
  have exd: "path_exists posix_host (files (env (init_run tree_dir_source))) [''v'', ''d-converted.mp4'']
     = Inr True"
    by (simp add: run_defs tree_dir_source_def)
  have ud: "unlink posix_host (files (env (init_run tree_dir_source))) [''v'', ''d.mkv'']
     = Inl IsADirectoryError"
    by (simp add: run_defs tree_dir_source_def)
  from skip_existing_artifact [OF wd exd nl, of enc_good] cd ud
  have dir: "\<exists>s'. process_file posix_host enc_good args_live (init_run tree_dir_source) [''v'', ''d.mkv'']
           = Inl (IsADirectoryError, s') \<and>
         skipped s' = [[''v'', ''d.mkv'']] \<and> deleted s' = [] \<and>
         files (env s') = tree_dir_source"
    by (auto simp: init_run_def)
  from wn ex u nl cd nd ncd live dry exd ud dir show ?thesis by blast
qed

text \<open>
  Claim C5 as stated fails. The scanned directory holds a directory \<open>clips.mkv\<close> and a
  file \<open>clips-converted.mp4\<close>: the output path of the candidate \<open>clips.mkv\<close> exists and
  \<^verbatim>\<open>--reprocess\<close> is absent. With commit mode and \<^verbatim>\<open>--delete\<close> the candidate is skipped,
  but its unlink raises: the source is not deleted, is not marked deleted, and the run
  ends with exit status 1.
\<close>

theorem skipped_directory_counterexample:
  "find_target_files posix_host tree_clips (start args_live) (ext args_live) (recursive args_live)
     = Inr [[''v'', ''clips.mkv'']] \<and>
   path_exists posix_host tree_clips (output_path [''v'', ''clips.mkv'']) = Inr True \<and>
   \<not> reprocess args_live \<and> commit args_live \<and> delete args_live \<and>
   main posix_host enc_good tree_clips args_live
     = Inl (IsADirectoryError,
            \<lparr>processed = [], skipped = [[''v'', ''clips.mkv'']], deleted = [], failed = [],
              total_saved = 0,
              env = \<lparr>files = tree_clips, ops = [Unlink [''v'', ''clips.mkv'']]\<rparr>,
              measured = []\<rparr>) \<and>
   map_of tree_clips [''v'', ''clips.mkv''] = Some (Dir 4096) \<and>
   exit_status (main posix_host enc_good tree_clips args_live) = 1"
  by (simp add: run_defs output_path_def exit_status_def tree_clips_def args_live_def)

section \<open>The collections of the summary\<close>

text \<open>
  Claim C4. After a run that ends normally, over a directory tree in which no path
  occurs twice, every scanned candidate is in exactly one of \<^verbatim>\<open>processed\<close>,
  \<^verbatim>\<open>skipped\<close> and \<^verbatim>\<open>failed\<close>; the three hold nothing but the candidates, each once; and
  every member of \<^verbatim>\<open>deleted\<close> is in \<^verbatim>\<open>processed\<close> or in \<^verbatim>\<open>skipped\<close>.
\<close>

theorem every_candidate_in_one_collection:
  assumes "main h enc t a = Inr (s, c)" and "distinct (map fst t)"
  shows "\<exists>ts. find_target_files h t (start a) (ext a) (recursive a) = Inr ts \<and>
         (\<forall>f\<in>set ts.
            (f \<in> set (processed_sources s) \<and> f \<notin> set (skipped s) \<and> f \<notin> set (failed s)) \<or>
            (f \<notin> set (processed_sources s) \<and> f \<in> set (skipped s) \<and> f \<notin> set (failed s)) \<or>
            (f \<notin> set (processed_sources s) \<and> f \<notin> set (skipped s) \<and> f \<in> set (failed s))) \<and>
         set (processed_sources s) \<union> set (skipped s) \<union> set (failed s) = set ts \<and>
         distinct (processed_sources s @ skipped s @ failed s) \<and>
         set (deleted s) \<subseteq> set (processed_sources s) \<union> set (skipped s)"
proof -
  from assms(1) obtain ts where
    ts: "find_target_files h t (start a) (ext a) (recursive a) = Inr ts"
    and ml: "main_loop h enc a (init_run t) ts = Inr s"
    by (auto simp: main_Inr)
  from main_loop_account [OF ml targets_distinct [OF assms(2) ts]]
  obtain P S F where
    "processed_sources s = P" "skipped s = S" "failed s = F"
    "set P \<union> set S \<union> set F = set ts" "distinct (P @ S @ F)"
    "set (deleted s) \<subseteq> set P \<union> set S"
    by (auto simp: init_run_def processed_sources_def)
  then have "(\<forall>f\<in>set ts.
            (f \<in> set (processed_sources s) \<and> f \<notin> set (skipped s) \<and> f \<notin> set (failed s)) \<or>
            (f \<notin> set (processed_sources s) \<and> f \<in> set (skipped s) \<and> f \<notin> set (failed s)) \<or>
            (f \<notin> set (processed_sources s) \<and> f \<notin> set (skipped s) \<and> f \<in> set (failed s))) \<and>
         set (processed_sources s) \<union> set (skipped s) \<union> set (failed s) = set ts \<and>
         distinct (processed_sources s @ skipped s @ failed s) \<and>
         set (deleted s) \<subseteq> set (processed_sources s) \<union> set (skipped s)"
    by auto
  with ts show ?thesis by blast
qed

theorem every_candidate_in_one_collection_witness:
  "distinct (map fst tree_demo) \<and>
   find_target_files posix_host tree_demo (start args_live) (ext args_live) (recursive args_live)
     = Inr [[''v'', ''a.mkv''], [''v'', ''b.mkv''], [''v'', ''sub'', ''c.mkv'']] \<and>
   (\<exists>s c. main posix_host enc_picky tree_demo args_live = Inr (s, c) \<and>
      processed_sources s = [[''v'', ''a.mkv'']] \<and> skipped s = [[''v'', ''b.mkv'']] \<and>
      failed s = [[''v'', ''sub'', ''c.mkv'']] \<and>
      set (processed_sources s) \<union> set (skipped s) \<union> set (failed s)
        = set [[''v'', ''a.mkv''], [''v'', ''b.mkv''], [''v'', ''sub'', ''c.mkv'']] \<and>
      distinct (processed_sources s @ skipped s @ failed s) \<and>
      set (deleted s) \<subseteq> set (processed_sources s) \<union> set (skipped s))"
proof -
  have d: "distinct (map fst tree_demo)"
    by (simp add: tree_demo_def)
  have ts: "find_target_files posix_host tree_demo (start args_live) (ext args_live) (recursive args_live)
     = Inr [[''v'', ''a.mkv''], [''v'', ''b.mkv''], [''v'', ''sub'', ''c.mkv'']]"
    using targets_tree_demo by (simp add: args_live_def)
  from every_candidate_in_one_collection [OF main_picky d] d main_picky ts
  show ?thesis
    by (simp add: processed_sources_def)
qed

section \<open>The space saved\<close>

text \<open>
  Claim C6. In commit mode, at the end of a run the total saved is the integer sum of
  the terms (source size minus output size) that were added, one for each member of
  \<^verbatim>\<open>processed\<close> and none for a skipped or failed candidate. In each term the source
  size is read in the directory tree before the transcode step and the output size in
  the tree that the transcode step leaves. A term may be negative. The closing line
  prints the quotient of the total by 1048576, as the division of the program yields it,
  with two decimals; below \<open>2^53\<close> bytes the division is exact. 100 MiB against 60 MiB
  gives \<open>40.00\<close>.
\<close>

theorem total_saved_is_sum:
  assumes "commit a" and "main h enc t a = Inr (s, c)"
  shows "total_saved s = measured_sum (measured s) \<and>
         map fst (measured s) = processed_sources s \<and>
         (\<exists>m. mib_quotient (total_saved s) = Inr m \<and> c = Total_space_saved (format_2f m)) \<and>
         (\<bar>total_saved s\<bar> < 2 ^ 53 \<longrightarrow> c = Total_space_saved (format_2f (total_saved s))) \<and>
         (\<forall>s0 f s1. process_file h enc a s0 f = Inr s1 \<and> processed s1 \<noteq> processed s0 \<longrightarrow>
            (\<exists>n m w. st_size h (files (env s0)) f = Inr n \<and>
               transcode_file h enc (env s0) f (output_path f) False = Inr (w, True) \<and>
               st_size h (files w) (output_path f) = Inr m \<and>
               measured s1 = measured s0 @ [(f, n, m)] \<and>
               total_saved s1 = total_saved s0 + (int n - int m))) \<and>
         mib_quotient (104857600 - 62914560) = Inr 41943040 \<and>
         format_2f 41943040 = ''40.00''"
proof -
  from assms(2) obtain ts where
    ml: "main_loop h enc a (init_run t) ts = Inr s" and c: "closing_line a s = Inr c"
    by (auto simp: main_Inr)
  have "map fst (measured (init_run t)) = processed_sources (init_run t)"
    by (simp add: init_run_def processed_sources_def)
  from main_loop_total [OF ml assms(1) this]
  have 1: "total_saved s = measured_sum (measured s)" and 2: "map fst (measured s) = processed_sources s"
    by (simp_all add: init_run_def measured_sum_def)
  have 3: "\<exists>m. mib_quotient (total_saved s) = Inr m \<and> c = Total_space_saved (format_2f m)"
    using c assms(1) by (auto simp: closing_line_def split: sum.splits)
  then have 4: "\<bar>total_saved s\<bar> < 2 ^ 53 \<longrightarrow> c = Total_space_saved (format_2f (total_saved s))"
    by (auto simp: mib_quotient_exact)
  have 5: "\<forall>s0 f s1. process_file h enc a s0 f = Inr s1 \<and> processed s1 \<noteq> processed s0 \<longrightarrow>
            (\<exists>n m w. st_size h (files (env s0)) f = Inr n \<and>
               transcode_file h enc (env s0) f (output_path f) False = Inr (w, True) \<and>
               st_size h (files w) (output_path f) = Inr m \<and>
               measured s1 = measured s0 @ [(f, n, m)] \<and>
               total_saved s1 = total_saved s0 + (int n - int m))"
    using process_file_measured [OF _ assms(1)] by blast
  from 1 2 3 4 5 quotient_examples(1,2) show ?thesis by blast
qed

theorem total_saved_is_sum_witness:
  "commit args_live \<and>
   (\<exists>s c. main posix_host enc_large tree_demo args_live = Inr (s, c) \<and>
      measured s = [([''v'', ''a.mkv''], 4, 6), ([''v'', ''sub'', ''c.mkv''], 2, 6)] \<and>
      total_saved s = - 6 \<and> total_saved s = measured_sum (measured s) \<and>
      map fst (measured s) = processed_sources s \<and>
      c = Total_space_saved ''-0.00'') \<and>
   mib_quotient 36028797018969211 = Inr 36028797018969208 \<and>
   format_2f 36028797018969208 = ''34359738368.00''"
proof -
  have c: "commit args_live"
    by (simp add: args_live_def)
  from total_saved_is_sum [OF c main_large] c main_large
  have "\<exists>s c. main posix_host enc_large tree_demo args_live = Inr (s, c) \<and>
      measured s = [([''v'', ''a.mkv''], 4, 6), ([''v'', ''sub'', ''c.mkv''], 2, 6)] \<and>
      total_saved s = - 6 \<and> total_saved s = measured_sum (measured s) \<and>
      map fst (measured s) = processed_sources s \<and>
      c = Total_space_saved ''-0.00''"
    by simp
  with c quotient_examples(3,4) show ?thesis by blast
qed

section \<open>The artifact appears only through the rename\<close>

text \<open>
  Claim C1. In live mode the transcode step issues a rename only after it has launched
  the encoder, only from the temporary path to the output path, and only when the
  encoder has exited with code 0. After the step the output path holds what the encoder
  left there, unless the encoder exited with 0 and the rename succeeded: then it holds
  what the temporary path held. Consequently, in commit mode with \<^verbatim>\<open>--reprocess\<close>, if the
  artifact of a candidate exists and the encoder does not exit with 0 (and has not
  written to the artifact path itself), the artifact after the candidate's turn is the
  artifact before it, whether the turn ends or raises.
\<close>

theorem artifact_only_by_rename:
  "(\<exists>rest. ops (final_world (transcode_file h enc w file (output_path file) False))
              = ops w @ Launch file (temp_path file) # rest \<and>
      (\<forall>x y. Rename x y \<in> set rest \<longrightarrow>
               x = temp_path file \<and> y = output_path file \<and>
               (\<exists>t. enc (files w) file (temp_path file) = Exited 0 t))) \<and>
   (map_of (files (final_world (transcode_file h enc w file (output_path file) False))) (output_path file)
      = map_of (tree_after (enc (files w) file (temp_path file)) (files w)) (output_path file) \<or>
    ((\<exists>t. enc (files w) file (temp_path file) = Exited 0 t) \<and>
     (\<exists>w'. transcode_file h enc w file (output_path file) False = Inr (w', True)) \<and>
     map_of (files (final_world (transcode_file h enc w file (output_path file) False))) (output_path file)
       = map_of (tree_after (enc (files w) file (temp_path file)) (files w)) (temp_path file) \<and>
     Rename (temp_path file) (output_path file)
       \<in> set (ops (final_world (transcode_file h enc w file (output_path file) False))))) \<and>
   (commit a \<and> reprocess a \<and> map_of (files (env s)) (output_path file) \<noteq> None \<and>
    (\<forall>t. enc (files (env s)) file (temp_path file) \<noteq> Exited 0 t) \<and>
    map_of (tree_after (enc (files (env s)) file (temp_path file)) (files (env s))) (output_path file)
      = map_of (files (env s)) (output_path file) \<longrightarrow>
      map_of (files (env (final_run (process_file h enc a s file)))) (output_path file)
        = map_of (files (env s)) (output_path file))"
proof (intro conjI impI)
  show "\<exists>rest. ops (final_world (transcode_file h enc w file (output_path file) False))
              = ops w @ Launch file (temp_path file) # rest \<and>
      (\<forall>x y. Rename x y \<in> set rest \<longrightarrow>
               x = temp_path file \<and> y = output_path file \<and>
               (\<exists>t. enc (files w) file (temp_path file) = Exited 0 t))"
    using transcode_live_trace [where h=h and enc=enc and w=w and src="file", OF with_suffix_output]
    by blast
  show "map_of (files (final_world (transcode_file h enc w file (output_path file) False))) (output_path file)
      = map_of (tree_after (enc (files w) file (temp_path file)) (files w)) (output_path file) \<or>
    ((\<exists>t. enc (files w) file (temp_path file) = Exited 0 t) \<and>
     (\<exists>w'. transcode_file h enc w file (output_path file) False = Inr (w', True)) \<and>
     map_of (files (final_world (transcode_file h enc w file (output_path file) False))) (output_path file)
       = map_of (tree_after (enc (files w) file (temp_path file)) (files w)) (temp_path file) \<and>
     Rename (temp_path file) (output_path file)
       \<in> set (ops (final_world (transcode_file h enc w file (output_path file) False))))"
    by (rule transcode_live_artifact [where h=h and enc=enc and w=w and src="file",
          OF with_suffix_output temp_neq_output])
next
  assume hyp: "commit a \<and> reprocess a \<and> map_of (files (env s)) (output_path file) \<noteq> None \<and>
    (\<forall>t. enc (files (env s)) file (temp_path file) \<noteq> Exited 0 t) \<and>
    map_of (tree_after (enc (files (env s)) file (temp_path file)) (files (env s))) (output_path file)
      = map_of (files (env s)) (output_path file)"
  then have ns: "skips h a (files (env s)) file \<noteq> Inr True" by (simp add: skips_True)
  from process_file_after_failed_transcode [OF _ _ ns, of enc] hyp
  consider "final_run (process_file h enc a s file) = s"
    | "env (final_run (process_file h enc a s file))
           = final_world (transcode_file h enc (env s) file (output_path file) False)"
    by blast
  then show "map_of (files (env (final_run (process_file h enc a s file)))) (output_path file)
        = map_of (files (env s)) (output_path file)"
  proof cases
    case 1
    then show ?thesis by simp
  next
    case 2
    from transcode_live_artifact [where h=h and enc=enc and w="env s" and src="file",
          OF with_suffix_output temp_neq_output] hyp
    have "map_of (files (final_world (transcode_file h enc (env s) file (output_path file) False)))
             (output_path file)
          = map_of (tree_after (enc (files (env s)) file (temp_path file)) (files (env s)))
             (output_path file)"
      by blast
    with 2 hyp show ?thesis by simp
  qed
qed

theorem artifact_only_by_rename_witness:
  "enc_good tree_demo [''v'', ''a.mkv''] [''v'', ''a-converted.tmp.mp4'']
     = Exited 0 (AList.update [''v'', ''a-converted.tmp.mp4''] (File ''xx'') tree_demo) \<and>
   ops (final_world (transcode_file posix_host enc_good \<lparr>files = tree_demo, ops = []\<rparr>
          [''v'', ''a.mkv''] [''v'', ''a-converted.mp4''] False))
     = [Launch [''v'', ''a.mkv''] [''v'', ''a-converted.tmp.mp4''],
        Rename [''v'', ''a-converted.tmp.mp4''] [''v'', ''a-converted.mp4'']] \<and>
   commit args_reprocess \<and> reprocess args_reprocess \<and>
   map_of (files (env (init_run tree_demo))) [''v'', ''b-converted.mp4''] = Some (File ''b'') \<and>
   enc_bad tree_demo [''v'', ''b.mkv''] [''v'', ''b-converted.tmp.mp4'']
     = Exited 1 (AList.update [''v'', ''b-converted.tmp.mp4''] (File ''x'') tree_demo) \<and>
   map_of (files (env (final_run
      (process_file posix_host enc_bad args_reprocess (init_run tree_demo) [''v'', ''b.mkv'']))))
      [''v'', ''b-converted.mp4''] = Some (File ''b'')"
proof -
  have 1: "commit args_reprocess \<and> reprocess args_reprocess"
    by (simp add: args_reprocess_def)
  have 3: "enc_bad tree_demo [''v'', ''b.mkv''] [''v'', ''b-converted.tmp.mp4'']
     = Exited 1 (AList.update [''v'', ''b-converted.tmp.mp4''] (File ''x'') tree_demo)"
    by (simp add: enc_bad_def)
  have 4: "map_of (files (env (init_run tree_demo))) [''v'', ''b-converted.mp4''] = Some (File ''b'')"
    by (simp add: init_run_def tree_demo_def)
  have 5: "map_of (tree_after (enc_bad (files (env (init_run tree_demo))) [''v'', ''b.mkv'']
              [''v'', ''b-converted.tmp.mp4'']) (files (env (init_run tree_demo))))
             [''v'', ''b-converted.mp4'']
           = map_of (files (env (init_run tree_demo))) [''v'', ''b-converted.mp4'']"
    by (simp add: tree_after_def enc_bad_def update_conv')
  have 6: "\<forall>t. enc_bad (files (env (init_run tree_demo))) [''v'', ''b.mkv'']
              [''v'', ''b-converted.tmp.mp4''] \<noteq> Exited 0 t"
    by (simp add: enc_bad_def)
  from artifact_only_by_rename [of posix_host enc_bad _ "[''v'', ''b.mkv'']" args_reprocess
      "init_run tree_demo"] 1 4 5 6
  have "map_of (files (env (final_run
      (process_file posix_host enc_bad args_reprocess (init_run tree_demo) [''v'', ''b.mkv'']))))
      [''v'', ''b-converted.mp4''] = Some (File ''b'')"
    by (simp add: paths_b)
  moreover have "enc_good tree_demo [''v'', ''a.mkv''] [''v'', ''a-converted.tmp.mp4'']
     = Exited 0 (AList.update [''v'', ''a-converted.tmp.mp4''] (File ''xx'') tree_demo)"
    by (simp add: enc_good_def)
  moreover have "ops (final_world (transcode_file posix_host enc_good \<lparr>files = tree_demo, ops = []\<rparr>
          [''v'', ''a.mkv''] [''v'', ''a-converted.mp4''] False))
     = [Launch [''v'', ''a.mkv''] [''v'', ''a-converted.tmp.mp4''],
        Rename [''v'', ''a-converted.tmp.mp4''] [''v'', ''a-converted.mp4'']]"
    by (simp add: run_defs final_world_def tree_demo_def enc_good_def)
  ultimately show ?thesis using 1 3 4 by blast
qed

section \<open>A failing transcode step\<close>

text \<open>
  Claim C2, at an input where the code departs from it. The scanned directory holds
  \<open>a.mkv\<close> and a directory named \<open>a-converted.tmp.mp4\<close>. When the encoder cannot be
  launched, or exits with 1, the cleanup finds that the temporary path exists and
  unlinks it; the unlink of a directory raises, inside the \<^verbatim>\<open>except\<close> block, so
  \<^verbatim>\<open>transcode_file\<close> raises IsADirectoryError and returns no failure result, the
  candidate reaches no collection, and the run ends with exit status 1. Where the
  cleanup of the temporary path goes through, the step returns as the claim says
  (\<open>transcode_live_cases\<close>).
\<close>

theorem cleanup_raises_on_directory:
  "transcode_file posix_host enc_missing \<lparr>files = tree_dir_tmp, ops = []\<rparr>
      [''v'', ''a.mkv''] [''v'', ''a-converted.mp4''] False
     = Inl (IsADirectoryError,
            \<lparr>files = tree_dir_tmp,
             ops = [Launch [''v'', ''a.mkv''] [''v'', ''a-converted.tmp.mp4''],
                    Unlink [''v'', ''a-converted.tmp.mp4'']]\<rparr>) \<and>
   transcode_file posix_host enc_exit1 \<lparr>files = tree_dir_tmp, ops = []\<rparr>
      [''v'', ''a.mkv''] [''v'', ''a-converted.mp4''] False
     = Inl (IsADirectoryError,
            \<lparr>files = tree_dir_tmp,
             ops = [Launch [''v'', ''a.mkv''] [''v'', ''a-converted.tmp.mp4''],
                    Unlink [''v'', ''a-converted.tmp.mp4''],
                    Unlink [''v'', ''a-converted.tmp.mp4'']]\<rparr>) \<and>
   find_target_files posix_host tree_dir_tmp (start args_live) (ext args_live) (recursive args_live)
     = Inr [[''v'', ''a.mkv'']] \<and>
   main posix_host enc_missing tree_dir_tmp args_live
     = Inl (IsADirectoryError,
            \<lparr>processed = [], skipped = [], deleted = [], failed = [], total_saved = 0,
              env = \<lparr>files = tree_dir_tmp,
                     ops = [Launch [''v'', ''a.mkv''] [''v'', ''a-converted.tmp.mp4''],
                            Unlink [''v'', ''a-converted.tmp.mp4'']]\<rparr>,
              measured = []\<rparr>) \<and>
   exit_status (main posix_host enc_missing tree_dir_tmp args_live) = 1"
proof (intro conjI)
  show "transcode_file posix_host enc_missing \<lparr>files = tree_dir_tmp, ops = []\<rparr>
      [''v'', ''a.mkv''] [''v'', ''a-converted.mp4''] False
     = Inl (IsADirectoryError,
            \<lparr>files = tree_dir_tmp,
             ops = [Launch [''v'', ''a.mkv''] [''v'', ''a-converted.tmp.mp4''],
                    Unlink [''v'', ''a-converted.tmp.mp4'']]\<rparr>)"
    by (simp add: run_defs tree_dir_tmp_def enc_missing_def)
  show "transcode_file posix_host enc_exit1 \<lparr>files = tree_dir_tmp, ops = []\<rparr>
      [''v'', ''a.mkv''] [''v'', ''a-converted.mp4''] False
     = Inl (IsADirectoryError,
            \<lparr>files = tree_dir_tmp,
             ops = [Launch [''v'', ''a.mkv''] [''v'', ''a-converted.tmp.mp4''],
                    Unlink [''v'', ''a-converted.tmp.mp4''],
                    Unlink [''v'', ''a-converted.tmp.mp4'']]\<rparr>)"
    by (simp add: run_defs tree_dir_tmp_def enc_exit1_def)
  show "find_target_files posix_host tree_dir_tmp (start args_live) (ext args_live) (recursive args_live)
     = Inr [[''v'', ''a.mkv'']]"
    by (simp add: run_defs tree_dir_tmp_def args_live_def)
  show m: "main posix_host enc_missing tree_dir_tmp args_live
     = Inl (IsADirectoryError,
            \<lparr>processed = [], skipped = [], deleted = [], failed = [], total_saved = 0,
              env = \<lparr>files = tree_dir_tmp,
                     ops = [Launch [''v'', ''a.mkv''] [''v'', ''a-converted.tmp.mp4''],
                            Unlink [''v'', ''a-converted.tmp.mp4'']]\<rparr>,
              measured = []\<rparr>)"
    by (simp add: run_defs tree_dir_tmp_def args_live_def enc_missing_def)
  show "exit_status (main posix_host enc_missing tree_dir_tmp args_live) = 1"
    by (simp add: m exit_status_def)
qed

text \<open>
  The cleanup raises as well when the host refuses the temporary path. The name of the
  source below has 244 bytes and the name of its output 254, but the temporary name has
  258: after the encoder has exited with 1, \<^verbatim>\<open>exists()\<close> raises in the cleanup, and again
  in the \<^verbatim>\<open>except\<close> block.
\<close>

lemma cleanup_raises_on_long_name:
  "transcode_file posix_host enc_exit1 \<lparr>files = tree_mid, ops = []\<rparr> mid_source
       (output_path mid_source) False
     = Inl (FileNameTooLong,
            \<lparr>files = tree_mid, ops = [Launch mid_source (temp_path mid_source)]\<rparr>)"
  by (simp add: transcode_file_def with_suffix_output enc_exit1_def remove_tmp_def except_block_def
      path_exists_def stat_def mid_source_refused ignore_error_def)

text \<open>The run over this directory ends there, the candidate in no collection.\<close>

lemma main_mid:
  "main posix_host enc_exit1 tree_mid args_live
     = Inl (FileNameTooLong,
            (init_run tree_mid)
              \<lparr>env := \<lparr>files = tree_mid, ops = [Launch mid_source (temp_path mid_source)]\<rparr>\<rparr>)"
proof -
  have ts: "find_target_files posix_host tree_mid [''v''] ''mkv'' True = Inr [mid_source]"
    by (simp add: find_target_files_def rglob_def is_dir_def stat_def posix_host_def too_long_def
      name_max_def tree_mid_def mid_source_def matches_def endswith_def)
  have d: "distinct (map fst tree_mid)"
    by (simp add: tree_mid_def mid_source_def)
  have sk: "skips posix_host args_live tree_mid mid_source = Inr False"
    using mid_source_refused(2) d
    by (simp add: skips_def path_exists_def stat_def ignore_error_def tree_mid_def mid_source_paths(2))
       (simp add: mid_source_def)
  have sz: "st_size posix_host tree_mid mid_source = Inr 4"
    by (simp add: st_size_def stat_def mid_source_refused tree_mid_def) (simp add: mid_source_def)
  have "process_file posix_host enc_exit1 args_live (init_run tree_mid) mid_source
     = Inl (FileNameTooLong,
            (init_run tree_mid)
              \<lparr>env := \<lparr>files = tree_mid, ops = [Launch mid_source (temp_path mid_source)]\<rparr>\<rparr>)"
    using sk sz cleanup_raises_on_long_name
    by (simp add: process_file_not_skipped [OF mid_source_paths(1)] init_run_def args_live_def)
  with ts show ?thesis
    by (simp add: main_def args_live_def)
qed

section \<open>Which faults are contained\<close>

text \<open>
  Claim C8, as the code has it. The transcode step returns True when the encoder has
  exited with 0 and the rename has gone through. After every other end of the encoder
  (it could not be launched, reading its output raised, it exited with another code,
  the rename raised) the step returns False and leaves nothing that \<^verbatim>\<open>exists()\<close> finds at
  the temporary path, provided that the cleanup of the temporary path goes through; the
  candidate is then appended to \<^verbatim>\<open>failed\<close> and the loop goes on with the remaining
  candidates. The calls that \<^verbatim>\<open>main\<close> makes itself are not guarded: when
  \<^verbatim>\<open>dst.exists()\<close> raises, when the stat of the source raises, or when the unlink of a
  skipped source raises, the exception ends the loop with the remaining candidates
  unvisited.
\<close>

theorem transcode_failures_contained:
  "(encoded_and_renamed h (enc (files w) file (temp_path file)) (temp_path file) (output_path file) \<longrightarrow>
      (\<exists>w'. transcode_file h enc w file (output_path file) False = Inr (w', True))) \<and>
   (\<not> encoded_and_renamed h (enc (files w) file (temp_path file)) (temp_path file) (output_path file) \<and>
    cleanup_returns h (tree_after (enc (files w) file (temp_path file)) (files w)) (temp_path file) \<longrightarrow>
      (\<exists>w'. transcode_file h enc w file (output_path file) False = Inr (w', False) \<and>
            path_exists h (files w') (temp_path file) = Inr False)) \<and>
   (commit a \<and> name file \<noteq> [] \<and> skips h a (files (env s)) file = Inr False \<and>
    st_size h (files (env s)) file = Inr n \<and>
    transcode_file h enc (env s) file (output_path file) False = Inr (w1, False) \<longrightarrow>
      process_file h enc a s file = Inr (s\<lparr>env := w1, failed := failed s @ [file]\<rparr>) \<and>
      main_loop h enc a s (file # rest)
        = main_loop h enc a (s\<lparr>env := w1, failed := failed s @ [file]\<rparr>) rest) \<and>
   (name file \<noteq> [] \<and> skips h a (files (env s)) file = Inl e \<longrightarrow>
      main_loop h enc a s (file # rest) = Inl (e, s)) \<and>
   (name file \<noteq> [] \<and> skips h a (files (env s)) file = Inr False \<and>
    st_size h (files (env s)) file = Inl e \<longrightarrow>
      main_loop h enc a s (file # rest) = Inl (e, s)) \<and>
   (name file \<noteq> [] \<and> skips h a (files (env s)) file = Inr True \<and> commit a \<and> delete a \<and>
    unlink h (files (env s)) file = Inl e \<longrightarrow>
      main_loop h enc a s (file # rest)
        = Inl (e, s\<lparr>skipped := skipped s @ [file],
                     env := (env s)\<lparr>ops := ops (env s) @ [Unlink file]\<rparr>\<rparr>))"
proof (intro conjI impI)
  note cases = transcode_live_cases [where h=h and enc=enc and w=w and src="file",
      OF with_suffix_output]
  {
    assume "encoded_and_renamed h (enc (files w) file (temp_path file)) (temp_path file) (output_path file)"
    with cases show "\<exists>w'. transcode_file h enc w file (output_path file) False = Inr (w', True)"
      by auto
  }
  {
    assume "\<not> encoded_and_renamed h (enc (files w) file (temp_path file)) (temp_path file) (output_path file) \<and>
      cleanup_returns h (tree_after (enc (files w) file (temp_path file)) (files w)) (temp_path file)"
    with cases show "\<exists>w'. transcode_file h enc w file (output_path file) False = Inr (w', False) \<and>
            path_exists h (files w') (temp_path file) = Inr False"
      by auto
  }
  {
    assume hyp: "commit a \<and> name file \<noteq> [] \<and> skips h a (files (env s)) file = Inr False \<and>
      st_size h (files (env s)) file = Inr n \<and>
      transcode_file h enc (env s) file (output_path file) False = Inr (w1, False)"
    then show step: "process_file h enc a s file = Inr (s\<lparr>env := w1, failed := failed s @ [file]\<rparr>)"
      by (simp add: process_file_not_skipped)
    then show "main_loop h enc a s (file # rest)
        = main_loop h enc a (s\<lparr>env := w1, failed := failed s @ [file]\<rparr>) rest"
      by simp
  }
  {
    assume "name file \<noteq> [] \<and> skips h a (files (env s)) file = Inl e"
    then show "main_loop h enc a s (file # rest) = Inl (e, s)"
      by (simp add: process_file_test_raises)
  }
  {
    assume "name file \<noteq> [] \<and> skips h a (files (env s)) file = Inr False \<and>
      st_size h (files (env s)) file = Inl e"
    then show "main_loop h enc a s (file # rest) = Inl (e, s)"
      by (simp add: process_file_not_skipped)
  }
  {
    assume "name file \<noteq> [] \<and> skips h a (files (env s)) file = Inr True \<and> commit a \<and> delete a \<and>
      unlink h (files (env s)) file = Inl e"
    then show "main_loop h enc a s (file # rest)
        = Inl (e, s\<lparr>skipped := skipped s @ [file],
                     env := (env s)\<lparr>ops := ops (env s) @ [Unlink file]\<rparr>\<rparr>)"
      by (simp add: process_file_skipped delete_source_cases)
  }
qed

theorem transcode_failures_contained_witness:
  "\<not> encoded_and_renamed posix_host (enc_bad tree_demo [''v'', ''a.mkv''] [''v'', ''a-converted.tmp.mp4''])
        [''v'', ''a-converted.tmp.mp4''] [''v'', ''a-converted.mp4''] \<and>
   cleanup_returns posix_host
     (tree_after (enc_bad tree_demo [''v'', ''a.mkv''] [''v'', ''a-converted.tmp.mp4'']) tree_demo)
     [''v'', ''a-converted.tmp.mp4''] \<and>
   commit args_live \<and>
   skips posix_host args_live tree_demo [''v'', ''a.mkv''] = Inr False \<and>
   st_size posix_host tree_demo [''v'', ''a.mkv''] = Inr 4 \<and>
   transcode_file posix_host enc_bad \<lparr>files = tree_demo, ops = []\<rparr> [''v'', ''a.mkv'']
       [''v'', ''a-converted.mp4''] False
     = Inr (\<lparr>files = tree_demo,
             ops = [Launch [''v'', ''a.mkv''] [''v'', ''a-converted.tmp.mp4''],
                    Unlink [''v'', ''a-converted.tmp.mp4'']]\<rparr>, False) \<and>
   main_loop posix_host enc_bad args_live (init_run tree_demo) [[''v'', ''a.mkv''], [''v'', ''b.mkv'']]
     = main_loop posix_host enc_bad args_live
         ((init_run tree_demo)
            \<lparr>env := \<lparr>files = tree_demo,
                      ops = [Launch [''v'', ''a.mkv''] [''v'', ''a-converted.tmp.mp4''],
                             Unlink [''v'', ''a-converted.tmp.mp4'']]\<rparr>,
             failed := [[''v'', ''a.mkv'']]\<rparr>)
         [[''v'', ''b.mkv'']] \<and>
   encoded_and_renamed posix_host (enc_good tree_demo [''v'', ''a.mkv''] [''v'', ''a-converted.tmp.mp4''])
        [''v'', ''a-converted.tmp.mp4''] [''v'', ''a-converted.mp4''] \<and>
   (\<exists>w'. transcode_file posix_host enc_good \<lparr>files = tree_demo, ops = []\<rparr> [''v'', ''a.mkv'']
            [''v'', ''a-converted.mp4''] False = Inr (w', True)) \<and>
   skips posix_host args_live tree_long long_source = Inl FileNameTooLong \<and>
   main_loop posix_host enc_good args_live (init_run tree_long) [long_source, [''v'', ''a.mkv'']]
     = Inl (FileNameTooLong, init_run tree_long) \<and>
   st_size posix_host tree_link [''v'', ''l.mkv''] = Inl FileNotFoundError \<and>
   main_loop posix_host enc_good args_live (init_run tree_link) [[''v'', ''l.mkv''], [''v'', ''m.mkv'']]
     = Inl (FileNotFoundError, init_run tree_link) \<and>
   unlink posix_host tree_dir_source [''v'', ''d.mkv''] = Inl IsADirectoryError \<and>
   main_loop posix_host enc_good args_live (init_run tree_dir_source)
       [[''v'', ''d.mkv''], [''v'', ''e.mkv'']]
     = Inl (IsADirectoryError,
            (init_run tree_dir_source)
              \<lparr>skipped := [[''v'', ''d.mkv'']],
               env := \<lparr>files = tree_dir_source, ops = [Unlink [''v'', ''d.mkv'']]\<rparr>\<rparr>)"
proof -
  let ?W = "\<lparr>files = tree_demo,
             ops = [Launch [''v'', ''a.mkv''] [''v'', ''a-converted.tmp.mp4''],
                    Unlink [''v'', ''a-converted.tmp.mp4'']]\<rparr>"
  have c: "commit args_live" "delete args_live"
    by (simp_all add: args_live_def)
  have ner: "\<not> encoded_and_renamed posix_host
        (enc_bad tree_demo [''v'', ''a.mkv''] [''v'', ''a-converted.tmp.mp4''])
        [''v'', ''a-converted.tmp.mp4''] [''v'', ''a-converted.mp4'']"
    by (simp add: encoded_and_renamed_def enc_bad_def)
  have cl: "cleanup_returns posix_host
     (tree_after (enc_bad tree_demo [''v'', ''a.mkv''] [''v'', ''a-converted.tmp.mp4'']) tree_demo)
     [''v'', ''a-converted.tmp.mp4'']"
    by (simp add: cleanup_returns_def run_defs tree_after_def enc_bad_def tree_demo_def)
  have ns: "skips posix_host args_live tree_demo [''v'', ''a.mkv''] = Inr False"
    by (simp add: skips_def paths_a run_defs tree_demo_def)
  have sz: "st_size posix_host tree_demo [''v'', ''a.mkv''] = Inr 4"
    by (simp add: run_defs tree_demo_def)
  have tr: "transcode_file posix_host enc_bad \<lparr>files = tree_demo, ops = []\<rparr> [''v'', ''a.mkv'']
       [''v'', ''a-converted.mp4''] False = Inr (?W, False)"
    by (simp add: run_defs enc_bad_def tree_demo_def)
  from transcode_failures_contained [of posix_host enc_bad _ "[''v'', ''a.mkv'']" args_live
      "init_run tree_demo" 4 ?W "[[''v'', ''b.mkv'']]"] c ns sz tr
  have A: "main_loop posix_host enc_bad args_live (init_run tree_demo) [[''v'', ''a.mkv''], [''v'', ''b.mkv'']]
     = main_loop posix_host enc_bad args_live
         ((init_run tree_demo)\<lparr>env := ?W, failed := [[''v'', ''a.mkv'']]\<rparr>) [[''v'', ''b.mkv'']]"
    by (simp add: paths_a init_run_def)
  have er: "encoded_and_renamed posix_host
        (enc_good tree_demo [''v'', ''a.mkv''] [''v'', ''a-converted.tmp.mp4''])
        [''v'', ''a-converted.tmp.mp4''] [''v'', ''a-converted.mp4'']"
    by (simp add: encoded_and_renamed_def enc_good_def run_defs tree_demo_def)
  from transcode_failures_contained [of posix_host enc_good "\<lparr>files = tree_demo, ops = []\<rparr>"
      "[''v'', ''a.mkv'']"] er
  have B: "\<exists>w'. transcode_file posix_host enc_good \<lparr>files = tree_demo, ops = []\<rparr> [''v'', ''a.mkv'']
            [''v'', ''a-converted.mp4''] False = Inr (w', True)"
    by (simp add: paths_a)
  from transcode_failures_contained [of posix_host enc_good _ long_source args_live "init_run tree_long"
      _ _ "[[''v'', ''a.mkv'']]" FileNameTooLong] long_source_paths(1) skips_long
  have C: "main_loop posix_host enc_good args_live (init_run tree_long) [long_source, [''v'', ''a.mkv'']]
     = Inl (FileNameTooLong, init_run tree_long)"
    by simp
  have ls: "skips posix_host args_live (files (env (init_run tree_link))) [''v'', ''l.mkv''] = Inr False"
    by (simp add: skips_def paths_l run_defs tree_link_def)
  have lz: "st_size posix_host tree_link [''v'', ''l.mkv''] = Inl FileNotFoundError"
    by (simp add: run_defs tree_link_def)
  from transcode_failures_contained [of posix_host enc_good _ "[''v'', ''l.mkv'']" args_live
      "init_run tree_link" _ _ "[[''v'', ''m.mkv'']]" FileNotFoundError] paths_l(1) ls lz
  have D: "main_loop posix_host enc_good args_live (init_run tree_link) [[''v'', ''l.mkv''], [''v'', ''m.mkv'']]
     = Inl (FileNotFoundError, init_run tree_link)"
    by (simp add: init_run_def)
  have dk: "skips posix_host args_live (files (env (init_run tree_dir_source))) [''v'', ''d.mkv''] = Inr True"
    by (simp add: skips_def paths_d run_defs tree_dir_source_def args_live_def)
  have du: "unlink posix_host tree_dir_source [''v'', ''d.mkv''] = Inl IsADirectoryError"
    by (simp add: run_defs tree_dir_source_def)
  from transcode_failures_contained [of posix_host enc_good _ "[''v'', ''d.mkv'']" args_live
      "init_run tree_dir_source" _ _ "[[''v'', ''e.mkv'']]" IsADirectoryError]
    paths_d(1) dk du c
  have E: "main_loop posix_host enc_good args_live (init_run tree_dir_source)
       [[''v'', ''d.mkv''], [''v'', ''e.mkv'']]
     = Inl (IsADirectoryError,
            (init_run tree_dir_source)
              \<lparr>skipped := [[''v'', ''d.mkv'']],
               env := \<lparr>files = tree_dir_source, ops = [Unlink [''v'', ''d.mkv'']]\<rparr>\<rparr>)"
    by (simp add: init_run_def)
  from ner cl c(1) ns sz tr A er B skips_long C lz D du E show ?thesis by blast
qed

text \<open>
  Claim C8 as stated fails: a directory \<open>d.mkv\<close> whose artifact exists is skipped, with
  commit and \<^verbatim>\<open>--delete\<close> its unlink raises, and the run ends there with exit status 1;
  the candidate \<open>e.mkv\<close> after it is never visited.
\<close>

theorem per_file_fault_aborts_counterexample:
  "find_target_files posix_host tree_dir_source (start args_live) (ext args_live) (recursive args_live)
     = Inr [[''v'', ''d.mkv''], [''v'', ''e.mkv'']] \<and>
   main posix_host enc_good tree_dir_source args_live
     = Inl (IsADirectoryError,
            \<lparr>processed = [], skipped = [[''v'', ''d.mkv'']], deleted = [], failed = [],
              total_saved = 0,
              env = \<lparr>files = tree_dir_source, ops = [Unlink [''v'', ''d.mkv'']]\<rparr>,
              measured = []\<rparr>) \<and>
   exit_status (main posix_host enc_good tree_dir_source args_live) = 1"
  by (simp add: run_defs exit_status_def tree_dir_source_def args_live_def enc_good_def)

section \<open>The start path and the exit status\<close>




end
